theory Spec2Isabelle
  imports Complex_Main
begin

section \<open>JavaScript numbers\<close>

text \<open>
  A TypeScript \<^verbatim>\<open>number\<close> is an IEEE double. It is modelled by its value: a finite
  number carries an exact real, and the three special values are kept apart, because
  the program creates them (\<^verbatim>\<open>Infinity\<close> and \<^verbatim>\<open>-Infinity\<close> start the running
  minimum and maximum, \<^verbatim>\<open>0 / 0\<close> and \<^verbatim>\<open>parseFloat('')\<close> are \<^verbatim>\<open>NaN\<close>).
  Rounding and the sign of zero are not modelled: a division of a non-zero number by zero
  gives the infinity of the sign of the numerator. Overflow to infinity is modelled where
  a text is parsed (\<open>to_number\<close> below), and not in the arithmetic.
\<close>

datatype jsnum = Num real | PosInf | NegInf | NaN

fun jneg :: "jsnum \<Rightarrow> jsnum" where
  "jneg (Num a) = Num (- a)"
| "jneg PosInf = NegInf"
| "jneg NegInf = PosInf"
| "jneg NaN = NaN"

fun jadd :: "jsnum \<Rightarrow> jsnum \<Rightarrow> jsnum" where
  "jadd (Num a) (Num b) = Num (a + b)"
| "jadd NaN _ = NaN"
| "jadd _ NaN = NaN"
| "jadd PosInf NegInf = NaN"
| "jadd NegInf PosInf = NaN"
| "jadd PosInf _ = PosInf"
| "jadd _ PosInf = PosInf"
| "jadd NegInf _ = NegInf"
| "jadd _ NegInf = NegInf"

definition jsub :: "jsnum \<Rightarrow> jsnum \<Rightarrow> jsnum" where
  "jsub x y = jadd x (jneg y)"

text \<open>The infinity whose sign is the sign of a non-zero real; \<^verbatim>\<open>NaN\<close> at zero.\<close>

definition signed_inf :: "real \<Rightarrow> jsnum" where
  "signed_inf a = (if a = 0 then NaN else if 0 < a then PosInf else NegInf)"

fun jmul :: "jsnum \<Rightarrow> jsnum \<Rightarrow> jsnum" where
  "jmul (Num a) (Num b) = Num (a * b)"
| "jmul NaN _ = NaN"
| "jmul _ NaN = NaN"
| "jmul (Num a) PosInf = signed_inf a"
| "jmul (Num a) NegInf = signed_inf (- a)"
| "jmul PosInf (Num b) = signed_inf b"
| "jmul NegInf (Num b) = signed_inf (- b)"
| "jmul PosInf PosInf = PosInf"
| "jmul PosInf NegInf = NegInf"
| "jmul NegInf PosInf = NegInf"
| "jmul NegInf NegInf = PosInf"

fun jdiv :: "jsnum \<Rightarrow> jsnum \<Rightarrow> jsnum" where
  "jdiv (Num a) (Num b) = (if b = 0 then signed_inf a else Num (a / b))"
| "jdiv NaN _ = NaN"
| "jdiv _ NaN = NaN"
| "jdiv (Num a) _ = Num 0"
| "jdiv PosInf (Num b) = (if 0 \<le> b then PosInf else NegInf)"
| "jdiv NegInf (Num b) = (if 0 \<le> b then NegInf else PosInf)"
| "jdiv _ _ = NaN"

text \<open>Comparisons: every comparison with \<^verbatim>\<open>NaN\<close> is false.\<close>

fun jlt :: "jsnum \<Rightarrow> jsnum \<Rightarrow> bool" where
  "jlt NaN _ = False"
| "jlt _ NaN = False"
| "jlt (Num a) (Num b) = (a < b)"
| "jlt _ NegInf = False"
| "jlt NegInf _ = True"
| "jlt PosInf _ = False"
| "jlt _ PosInf = True"

definition jgt :: "jsnum \<Rightarrow> jsnum \<Rightarrow> bool" where
  "jgt x y = jlt y x"

text \<open>Strict equality \<^verbatim>\<open>===\<close> on numbers: \<^verbatim>\<open>NaN\<close> is not equal to itself.\<close>

definition jeq :: "jsnum \<Rightarrow> jsnum \<Rightarrow> bool" where
  "jeq x y = (x = y \<and> x \<noteq> NaN)"

definition jle :: "jsnum \<Rightarrow> jsnum \<Rightarrow> bool" where
  "jle x y = (jlt x y \<or> jeq x y)"

definition jge :: "jsnum \<Rightarrow> jsnum \<Rightarrow> bool" where
  "jge x y = jle y x"

definition isNaN :: "jsnum \<Rightarrow> bool" where
  "isNaN x = (x = NaN)"

text \<open>\<^verbatim>\<open>Math.min\<close> and \<^verbatim>\<open>Math.max\<close> of two numbers: \<^verbatim>\<open>NaN\<close> if either is.\<close>

definition jmin :: "jsnum \<Rightarrow> jsnum \<Rightarrow> jsnum" where
  "jmin x y = (if x = NaN \<or> y = NaN then NaN else if jlt y x then y else x)"

definition jmax :: "jsnum \<Rightarrow> jsnum \<Rightarrow> jsnum" where
  "jmax x y = (if x = NaN \<or> y = NaN then NaN else if jlt x y then y else x)"

fun jfloor :: "jsnum \<Rightarrow> jsnum" where
  "jfloor (Num a) = Num (of_int \<lfloor>a\<rfloor>)"
| "jfloor x = x"

fun jceil :: "jsnum \<Rightarrow> jsnum" where
  "jceil (Num a) = Num (of_int \<lceil>a\<rceil>)"
| "jceil x = x"

fun jsqrt :: "jsnum \<Rightarrow> jsnum" where
  "jsqrt (Num a) = (if a < 0 then NaN else Num (sqrt a))"
| "jsqrt PosInf = PosInf"
| "jsqrt _ = NaN"

fun jcos :: "jsnum \<Rightarrow> jsnum" where
  "jcos (Num a) = Num (cos a)"
| "jcos _ = NaN"

fun jsin :: "jsnum \<Rightarrow> jsnum" where
  "jsin (Num a) = Num (sin a)"
| "jsin _ = NaN"

text \<open>\<^verbatim>\<open>Math.log10\<close> and \<^verbatim>\<open>Math.log2\<close>.\<close>

fun jlog :: "real \<Rightarrow> jsnum \<Rightarrow> jsnum" where
  "jlog b (Num a) = (if a < 0 then NaN else if a = 0 then NegInf else Num (log b a))"
| "jlog b PosInf = PosInf"
| "jlog b _ = NaN"

text \<open>\<^verbatim>\<open>Math.pow(2, x)\<close>.\<close>

fun jpow2 :: "jsnum \<Rightarrow> jsnum" where
  "jpow2 (Num a) = Num (2 powr a)"
| "jpow2 PosInf = PosInf"
| "jpow2 NegInf = Num 0"
| "jpow2 NaN = NaN"

text \<open>\<^verbatim>\<open>x ** 2\<close>.\<close>

definition jsquare :: "jsnum \<Rightarrow> jsnum" where
  "jsquare x = jmul x x"

text \<open>Truthiness of a number, and \<^verbatim>\<open>a || b\<close> on numbers.\<close>

definition truthy :: "jsnum \<Rightarrow> bool" where
  "truthy x = (x \<noteq> Num 0 \<and> x \<noteq> NaN)"

definition jor :: "jsnum \<Rightarrow> jsnum \<Rightarrow> jsnum" where
  "jor x y = (if truthy x then x else y)"

subsection \<open>Numbers as text\<close>

text \<open>
  Strings are lists of code units below 256. \<^verbatim>\<open>Number.prototype.toString\<close> is
  modelled on the values that are interpolated into colours and identifiers: integers
  (below the switch to exponent notation at \<^verbatim>\<open>1e21\<close>) and the special values. The
  shortest round-trip decimal of a fraction is not modelled; a fraction prints as its
  integer part followed by a dot.
\<close>

definition digit_char :: "nat \<Rightarrow> char" where
  "digit_char d = ''0123456789'' ! d"

fun digits :: "nat \<Rightarrow> string" where
  "digits n = (if n < 10 then [digit_char n] else digits (n div 10) @ [digit_char (n mod 10)])"

declare digits.simps [simp del]

definition int_to_string :: "int \<Rightarrow> string" where
  "int_to_string k = (if k < 0 then CHR ''-'' # digits (nat (- k)) else digits (nat k))"

fun num_to_string :: "jsnum \<Rightarrow> string" where
  "num_to_string (Num a) =
     (if a = of_int \<lfloor>a\<rfloor> then int_to_string \<lfloor>a\<rfloor> else int_to_string \<lfloor>a\<rfloor> @ ''.'')"
| "num_to_string PosInf = ''Infinity''"
| "num_to_string NegInf = ''-Infinity''"
| "num_to_string NaN = ''NaN''"

section \<open>Colour mapping (\<^verbatim>\<open>getHeatmapColor\<close> in \<^verbatim>\<open>utils/dsp.ts\<close>)\<close>

text \<open>The three components \<^verbatim>\<open>r\<close>, \<^verbatim>\<open>g\<close>, \<^verbatim>\<open>b\<close> computed by the four branches.\<close>

definition heatmap_rgb :: "jsnum \<Rightarrow> jsnum \<times> jsnum \<times> jsnum" where
  "heatmap_rgb v =
     (let clamped = jmax (Num 0) (jmin (Num 1) v) in
      if jlt clamped (Num 0.25) then
        (Num 0, Num 0, jfloor (jmul (jmul clamped (Num 4)) (Num 255)))
      else if jlt clamped (Num 0.5) then
        (jfloor (jmul (jmul (jsub clamped (Num 0.25)) (Num 4)) (Num 255)),
         Num 0,
         jsub (Num 255) (jfloor (jmul (jmul (jsub clamped (Num 0.25)) (Num 4)) (Num 200))))
      else if jlt clamped (Num 0.75) then
        (Num 255, jfloor (jmul (jmul (jsub clamped (Num 0.5)) (Num 4)) (Num 255)), Num 0)
      else
        (Num 255, Num 255, jfloor (jmul (jmul (jsub clamped (Num 0.75)) (Num 4)) (Num 255))))"

definition red :: "jsnum \<times> jsnum \<times> jsnum \<Rightarrow> jsnum" where
  "red c = fst c"

definition green :: "jsnum \<times> jsnum \<times> jsnum \<Rightarrow> jsnum" where
  "green c = fst (snd c)"

definition blue :: "jsnum \<times> jsnum \<times> jsnum \<Rightarrow> jsnum" where
  "blue c = snd (snd c)"

definition getHeatmapColor :: "jsnum \<Rightarrow> string" where
  "getHeatmapColor v =
     (let c = heatmap_rgb v in
      ''rgb('' @ num_to_string (red c) @ '','' @ num_to_string (green c) @ '',''
        @ num_to_string (blue c) @ '')'')"

text \<open>The four input segments of the ramp, as the specification names them.\<close>

datatype segment = Seg1 | Seg2 | Seg3 | Seg4

fun in_segment :: "segment \<Rightarrow> real \<Rightarrow> bool" where
  "in_segment Seg1 x = (0 \<le> x \<and> x < 1/4)"
| "in_segment Seg2 x = (1/4 \<le> x \<and> x < 1/2)"
| "in_segment Seg3 x = (1/2 \<le> x \<and> x < 3/4)"
| "in_segment Seg4 x = (3/4 \<le> x \<and> x \<le> 1)"

section \<open>Arrays and faults\<close>

text \<open>
  The faults the modelled code can raise: reading a property of \<^verbatim>\<open>undefined\<close> is a
  \<^verbatim>\<open>TypeError\<close>, and \<^verbatim>\<open>new Array(n)\<close> with \<^verbatim>\<open>n\<close> not a non-negative integer is a
  \<^verbatim>\<open>RangeError\<close>. The upper limit of array lengths is not modelled.
\<close>

datatype error = TypeError | RangeError

definition new_array :: "jsnum \<Rightarrow> error + nat" where
  "new_array n =
     (case n of
        Num a \<Rightarrow> if 0 \<le> a \<and> a = of_int \<lfloor>a\<rfloor> then Inr (nat \<lfloor>a\<rfloor>) else Inl RangeError
      | _ \<Rightarrow> Inl RangeError)"

text \<open>
  \<^verbatim>\<open>xs[i].field\<close>: the element when \<^verbatim>\<open>i\<close> is an index of the array, a
  \<^verbatim>\<open>TypeError\<close> otherwise.
\<close>

definition read_elem :: "'a list \<Rightarrow> nat \<Rightarrow> error + 'a" where
  "read_elem xs i = (if i < length xs then Inr (xs ! i) else Inl TypeError)"

text \<open>
  \<^verbatim>\<open>xs[k]\<close> used as a number, for a number \<^verbatim>\<open>k\<close>: the element when \<^verbatim>\<open>k\<close> is an
  index of the array; otherwise \<^verbatim>\<open>undefined\<close>, which arithmetic turns into \<^verbatim>\<open>NaN\<close>.
\<close>

definition num_at :: "jsnum list \<Rightarrow> jsnum \<Rightarrow> jsnum" where
  "num_at xs k =
     (case k of
        Num a \<Rightarrow> if 0 \<le> a \<and> a = of_int \<lfloor>a\<rfloor> \<and> nat \<lfloor>a\<rfloor> < length xs then xs ! nat \<lfloor>a\<rfloor> else NaN
      | _ \<Rightarrow> NaN)"

text \<open>A loop body that may raise, run over a list of indices in order.\<close>

fun map_err :: "('a \<Rightarrow> error + 'b) \<Rightarrow> 'a list \<Rightarrow> error + 'b list" where
  "map_err f [] = Inr []"
| "map_err f (x # xs) =
     (case f x of
        Inl e \<Rightarrow> Inl e
      | Inr y \<Rightarrow> (case map_err f xs of Inl e \<Rightarrow> Inl e | Inr ys \<Rightarrow> Inr (y # ys)))"

text \<open>The indices \<^verbatim>\<open>k = 0, 1, ...\<close> with \<^verbatim>\<open>k < n / 2\<close>.\<close>

definition half_indices :: "nat \<Rightarrow> nat list" where
  "half_indices n = filter (\<lambda>k. 2 * k < n) [0..<n]"

text \<open>\<^verbatim>\<open>ToLength\<close>, as \<^verbatim>\<open>Array.from({length: n}, ...)\<close> applies it (below \<^verbatim>\<open>2^53\<close>).\<close>

fun to_length :: "jsnum \<Rightarrow> nat" where
  "to_length (Num a) = nat \<lfloor>a\<rfloor>"
| "to_length PosInf = 2 ^ 53 - 1"
| "to_length _ = 0"

section \<open>The FFT (\<^verbatim>\<open>fft\<close> in \<^verbatim>\<open>utils/dsp.ts\<close>)\<close>

record Complex_js =
  real_c :: jsnum
  imag_c :: jsnum

text \<open>\<^verbatim>\<open>input.filter((_, i) => i % 2 === 0)\<close> and \<^verbatim>\<open>input.filter((_, i) => i % 2 !== 0)\<close>.\<close>

fun evens :: "'a list \<Rightarrow> 'a list" where
  "evens [] = []"
| "evens [x] = [x]"
| "evens (x # y # xs) = x # evens xs"

fun odds :: "'a list \<Rightarrow> 'a list" where
  "odds [] = []"
| "odds [x] = []"
| "odds (x # y # xs) = y # odds xs"

text \<open>The twiddle factor \<^verbatim>\<open>w\<close> of step \<^verbatim>\<open>k\<close>, with \<^verbatim>\<open>angle = -2 * Math.PI * k / n\<close>.\<close>

definition twiddle :: "nat \<Rightarrow> nat \<Rightarrow> Complex_js" where
  "twiddle k n =
     (let angle = jdiv (jmul (jmul (Num (- 2)) (Num pi)) (Num (real k))) (Num (real n))
      in \<lparr>real_c = jcos angle, imag_c = jsin angle\<rparr>)"

text \<open>
  The arithmetic of one step of the loop: from \<^verbatim>\<open>w\<close>, \<^verbatim>\<open>even[k]\<close> and \<^verbatim>\<open>odd[k]\<close>
  the product \<^verbatim>\<open>wOdd\<close> and the pair written to \<^verbatim>\<open>combined[k]\<close> and
  \<^verbatim>\<open>combined[k + n / 2]\<close>.
\<close>

definition butterfly_pair :: "Complex_js \<Rightarrow> Complex_js \<Rightarrow> Complex_js \<Rightarrow> Complex_js \<times> Complex_js" where
  "butterfly_pair w ek ok =
     (let wOdd = \<lparr>real_c = jsub (jmul (real_c w) (real_c ok)) (jmul (imag_c w) (imag_c ok)),
                  imag_c = jadd (jmul (real_c w) (imag_c ok)) (jmul (imag_c w) (real_c ok))\<rparr>
      in (\<lparr>real_c = jadd (real_c ek) (real_c wOdd), imag_c = jadd (imag_c ek) (imag_c wOdd)\<rparr>,
          \<lparr>real_c = jsub (real_c ek) (real_c wOdd), imag_c = jsub (imag_c ek) (imag_c wOdd)\<rparr>))"

text \<open>
  One step of the loop. Reading \<^verbatim>\<open>odd[k]\<close> or \<^verbatim>\<open>even[k]\<close> past the end of the array
  raises; \<^verbatim>\<open>odd[k]\<close> is read first.
\<close>

definition butterfly ::
  "nat \<Rightarrow> Complex_js list \<Rightarrow> Complex_js list \<Rightarrow> nat \<Rightarrow> error + (Complex_js \<times> Complex_js)" where
  "butterfly n even_part odd_part k =
     (case read_elem odd_part k of
        Inl e \<Rightarrow> Inl e
      | Inr ok \<Rightarrow>
          (case read_elem even_part k of
             Inl e \<Rightarrow> Inl e
           | Inr ek \<Rightarrow> Inr (butterfly_pair (twiddle k n) ek ok)))"

text \<open>
  The loop over \<^verbatim>\<open>k < n / 2\<close> and the array it fills: the first components are the
  entries \<^verbatim>\<open>0 .. n/2 - 1\<close>, the second components the entries \<^verbatim>\<open>n/2 .. n - 1\<close>. For an
  odd \<^verbatim>\<open>n > 1\<close> the last step \<^verbatim>\<open>k = (n - 1) / 2\<close> reads \<^verbatim>\<open>odd[k]\<close> past the end of an
  \<^verbatim>\<open>odd\<close> of \<^verbatim>\<open>(n - 1) / 2\<close> entries and raises, so no array with a fractional index
  is returned. On a length that is a power of two the transform returns an array of that
  length (lemma \<open>fft_length\<close> below).
\<close>

definition fft_combine :: "nat \<Rightarrow> Complex_js list \<Rightarrow> Complex_js list \<Rightarrow> error + Complex_js list" where
  "fft_combine n even_part odd_part =
     (case map_err (butterfly n even_part odd_part) (half_indices n) of
        Inl e \<Rightarrow> Inl e
      | Inr ps \<Rightarrow> Inr (map fst ps @ map snd ps))"

function fft :: "Complex_js list \<Rightarrow> error + Complex_js list" where
  "fft input =
     (let n = length input in
      if n \<le> 1 then Inr input
      else
        (case fft (evens input) of
           Inl e \<Rightarrow> Inl e
         | Inr even_part \<Rightarrow>
             (case fft (odds input) of
                Inl e \<Rightarrow> Inl e
              | Inr odd_part \<Rightarrow> fft_combine n even_part odd_part)))"
  by pat_completeness auto
termination
proof (relation "measure length")
  have le: "length (evens xs) \<le> length xs \<and> length (odds xs) \<le> length xs" for xs :: "Complex_js list"
    by (induction xs rule: evens.induct) auto
  have lt: "length (evens xs) < length xs \<and> length (odds xs) < length xs"
    if "\<not> length xs \<le> 1" for xs :: "Complex_js list"
  proof (cases xs)
    case Nil
    with that show ?thesis by simp
  next
    case (Cons x ys)
    show ?thesis
    proof (cases ys)
      case Nil
      with Cons that show ?thesis by simp
    next
      case (Cons y zs)
      with \<open>xs = x # ys\<close> le [of zs] show ?thesis by simp
    qed
  qed
  show "wf (measure length)" by simp
  show "(evens input, input) \<in> measure length" if "x = length input" "\<not> x \<le> 1"
    for input :: "Complex_js list" and x
    using that lt [of input] by simp
  show "(odds input, input) \<in> measure length" if "x = length input" "\<not> x \<le> 1"
    for input :: "Complex_js list" and x and a b
    using that lt [of input] by simp
qed

declare fft.simps [simp del]

section \<open>Magnitude spectrum and window (\<^verbatim>\<open>computeMagnitude\<close>, \<^verbatim>\<open>hanningWindow\<close>)\<close>

text \<open>\<^verbatim>\<open>Math.pow(2, Math.ceil(Math.log2(signal.length)))\<close>.\<close>

definition padded_length :: "nat \<Rightarrow> jsnum" where
  "padded_length len = jpow2 (jceil (jlog 2 (Num (real len))))"

text \<open>\<^verbatim>\<open>Math.sqrt(c.real ** 2 + c.imag ** 2)\<close>.\<close>

definition magnitude :: "Complex_js \<Rightarrow> jsnum" where
  "magnitude c = jsqrt (jadd (jsquare (real_c c)) (jsquare (imag_c c)))"

definition computeMagnitude :: "jsnum list \<Rightarrow> error + jsnum list" where
  "computeMagnitude signal =
     (case new_array (padded_length (length signal)) of
        Inl e \<Rightarrow> Inl e
      | Inr pow2 \<Rightarrow>
          (let complexSignal =
                 map (\<lambda>i. \<lparr>real_c = (if i < length signal then signal ! i else Num 0),
                            imag_c = Num 0\<rparr>) [0..<pow2]
           in case fft complexSignal of
                Inl e \<Rightarrow> Inl e
              | Inr spectrum \<Rightarrow>
                  map_err (\<lambda>i. case read_elem spectrum i of
                                  Inl e \<Rightarrow> Inl e
                                | Inr c \<Rightarrow> Inr (magnitude c))
                          (half_indices pow2)))"

text \<open>\<^verbatim>\<open>w[i] = 0.5 * (1 - Math.cos((2 * Math.PI * i) / (size - 1)))\<close>.\<close>

definition hann_coeff :: "jsnum \<Rightarrow> nat \<Rightarrow> jsnum" where
  "hann_coeff size_w i =
     jmul (Num 0.5)
       (jsub (Num 1)
          (jcos (jdiv (jmul (jmul (Num 2) (Num pi)) (Num (real i))) (jsub size_w (Num 1)))))"

definition hanningWindow :: "jsnum \<Rightarrow> error + jsnum list" where
  "hanningWindow size_w =
     (case new_array size_w of
        Inl e \<Rightarrow> Inl e
      | Inr n \<Rightarrow> Inr (map (hann_coeff size_w) [0..<n]))"

section \<open>The spectrogram engine (\<^verbatim>\<open>computeSpectrogram\<close>)\<close>

record SpectrogramData =
  magnitudes :: "jsnum list list"
  freqs :: "jsnum list"
  times :: "jsnum list"
  maxMag :: jsnum
  minMag :: jsnum

text \<open>\<^verbatim>\<open>Math.log10(m + 1e-6) * 20\<close>.\<close>

definition pseudo_db :: "jsnum \<Rightarrow> jsnum" where
  "pseudo_db m = jmul (jlog 10 (jadd m (Num (1 / 10 ^ 6)))) (Num 20)"

text \<open>
  \<^verbatim>\<open>mags.map(m => ...)\<close> with its two assignments to the enclosing \<^verbatim>\<open>maxMag\<close> and
  \<^verbatim>\<open>minMag\<close>: the mapped row and the two running values after it.
\<close>

fun log_mags :: "jsnum list \<Rightarrow> jsnum \<Rightarrow> jsnum \<Rightarrow> jsnum list \<times> jsnum \<times> jsnum" where
  "log_mags [] mx mn = ([], mx, mn)"
| "log_mags (m # ms) mx mn =
     (let val = pseudo_db m;
          mx' = (if jgt val mx then val else mx);
          mn' = (if jlt val mn then val else mn)
      in case log_mags ms mx' mn' of (vals, mx'', mn'') \<Rightarrow> (val # vals, mx'', mn''))"

text \<open>
  The inner loop: \<^verbatim>\<open>chunk.push(signal[i + j] * windowFunc[j])\<close> for \<^verbatim>\<open>j < windowSize\<close>.
  The array \<^verbatim>\<open>windowFunc\<close> was returned by \<^verbatim>\<open>hanningWindow(windowSize)\<close> and has
  \<^verbatim>\<open>windowSize\<close> entries, so \<^verbatim>\<open>j\<close> runs over its indices.
\<close>

definition window_chunk :: "jsnum list \<Rightarrow> jsnum list \<Rightarrow> jsnum \<Rightarrow> jsnum list" where
  "window_chunk signal windowFunc i =
     map (\<lambda>j. jmul (num_at signal (jadd i (Num (real j)))) (num_at windowFunc (Num (real j))))
       [0..<length windowFunc]"

text \<open>
  The sliding-window loop \<^verbatim>\<open>for (let i = 0; i <= signal.length - windowSize; i += step)\<close>,
  with the grid and the running maximum and minimum as its state. The loop does not end
  when \<^verbatim>\<open>step\<close> is not positive and the first test holds; that is the value \<open>None\<close>.
\<close>

partial_function (option) stft_loop ::
  "jsnum list \<Rightarrow> jsnum list \<Rightarrow> jsnum \<Rightarrow> jsnum \<Rightarrow> jsnum \<Rightarrow> jsnum list list \<times> jsnum \<times> jsnum
     \<Rightarrow> (error + jsnum list list \<times> jsnum \<times> jsnum) option" where
  "stft_loop signal windowFunc windowSize step i st =
     (if jle i (jsub (Num (real (length signal))) windowSize) then
        (case computeMagnitude (window_chunk signal windowFunc i) of
           Inl e \<Rightarrow> Some (Inl e)
         | Inr mags \<Rightarrow>
             (case st of (result, mx, mn) \<Rightarrow>
                (case log_mags mags mx mn of (logMags, mx', mn') \<Rightarrow>
                   stft_loop signal windowFunc windowSize step (jadd i step)
                     (result @ [logMags], mx', mn'))))
      else Some (Inr st))"

text \<open>
  The default arguments \<^verbatim>\<open>windowSize = 256\<close> and \<^verbatim>\<open>overlap = 128\<close> are passed
  explicitly by the one caller (with \<^verbatim>\<open>nFft = 256\<close> and \<^verbatim>\<open>nFft / 2\<close>).
\<close>

definition computeSpectrogram ::
  "jsnum list \<Rightarrow> jsnum \<Rightarrow> jsnum \<Rightarrow> jsnum \<Rightarrow> (error + SpectrogramData) option" where
  "computeSpectrogram signal sampleRate windowSize overlap =
     (let step = jsub windowSize overlap in
      case hanningWindow windowSize of
        Inl e \<Rightarrow> Some (Inl e)
      | Inr windowFunc \<Rightarrow>
          (case stft_loop signal windowFunc windowSize step (Num 0) ([], NegInf, PosInf) of
             None \<Rightarrow> None
           | Some (Inl e) \<Rightarrow> Some (Inl e)
           | Some (Inr (result, mx, mn)) \<Rightarrow>
               (let numFreqBins = jdiv windowSize (Num 2);
                    fs = map (\<lambda>i. jdiv (jmul (Num (real i)) sampleRate) windowSize)
                           [0..<to_length numFreqBins];
                    ts = map (\<lambda>i. jdiv (jmul (Num (real i)) step) sampleRate)
                           [0..<length result]
                in Some (Inr \<lparr>magnitudes = result, freqs = fs, times = ts,
                               maxMag = mx, minMag = mn\<rparr>))))"

section \<open>The spectrogram view (the \<^verbatim>\<open>Spectrogram\<close> component)\<close>

text \<open>
  The memoised \<^verbatim>\<open>specData\<close>: \<^verbatim>\<open>null\<close> for an empty \<^verbatim>\<open>data\<close>, and otherwise
  \<^verbatim>\<open>computeSpectrogram(data, sampleRate, nFft, nFft / 2)\<close> with \<^verbatim>\<open>nFft = 256\<close>.
\<close>

definition specData :: "jsnum list \<Rightarrow> jsnum \<Rightarrow> (error + SpectrogramData option) option" where
  "specData data sampleRate =
     (if data = [] then Some (Inr None)
      else
        (case computeSpectrogram data sampleRate (Num 256) (jdiv (Num 256) (Num 2)) of
           None \<Rightarrow> None
         | Some (Inl e) \<Rightarrow> Some (Inl e)
         | Some (Inr d) \<Rightarrow> Some (Inr (Some d))))"

record fill_rect =
  fillStyle :: string
  rect_x :: jsnum
  rect_y :: jsnum
  rect_w :: jsnum
  rect_h :: jsnum

text \<open>
  The body of the two nested loops for one cell. \<^verbatim>\<open>magnitudes[t][f]\<close> past the end of
  a row is \<^verbatim>\<open>undefined\<close> and becomes \<^verbatim>\<open>NaN\<close> in the subtraction.
\<close>

definition draw_cell :: "SpectrogramData \<Rightarrow> jsnum \<Rightarrow> jsnum \<Rightarrow> jsnum \<Rightarrow> jsnum \<Rightarrow> nat \<Rightarrow> nat \<Rightarrow> fill_rect" where
  "draw_cell d canvas_height cellWidth cellHeight range_m t f =
     (let mag = num_at (magnitudes d ! t) (Num (real f));
          norm = jdiv (jsub mag (minMag d)) (jor range_m (Num 1));
          y = jsub canvas_height (jmul (jadd (Num (real f)) (Num 1)) cellHeight)
      in \<lparr>fillStyle = getHeatmapColor norm,
          rect_x = jfloor (jmul (Num (real t)) cellWidth),
          rect_y = jfloor y,
          rect_w = jadd (jceil cellWidth) (Num 1),
          rect_h = jadd (jceil cellHeight) (Num 1)\<rparr>)"

datatype draw_outcome = Skipped | Drawn "fill_rect list"

text \<open>
  The drawing effect. Its environment is given by the arguments: whether the canvas
  element and its 2-D context exist, the container's \<^verbatim>\<open>clientWidth\<close> (absent when the
  container reference is empty) and the \<^verbatim>\<open>height\<close> property; canvas dimensions are
  unsigned integers. The result lists the \<^verbatim>\<open>fillRect\<close> calls in order.
\<close>

definition spectrogram_draw ::
  "bool \<Rightarrow> bool \<Rightarrow> nat option \<Rightarrow> nat \<Rightarrow> SpectrogramData option \<Rightarrow> error + draw_outcome" where
  "spectrogram_draw has_canvas has_ctx clientWidth height sd =
     (case sd of
        None \<Rightarrow> Inr Skipped
      | Some d \<Rightarrow>
          if \<not> has_canvas \<or> \<not> has_ctx then Inr Skipped
          else
            (let numTimeBins = length (magnitudes d) in
             case read_elem (magnitudes d) 0 of
               Inl e \<Rightarrow> Inl e
             | Inr row0 \<Rightarrow>
                 (let numFreqBins = length row0;
                      containerWidth =
                        (case clientWidth of None \<Rightarrow> Num 800 | Some w \<Rightarrow> jor (Num (real w)) (Num 800));
                      canvas_width = containerWidth;
                      canvas_height = Num (real height);
                      cellWidth = jdiv canvas_width (Num (real numTimeBins));
                      cellHeight = jdiv canvas_height (Num (real numFreqBins));
                      range_m = jsub (maxMag d) (minMag d)
                  in Inr (Drawn (concat (map (\<lambda>t. map (draw_cell d canvas_height cellWidth cellHeight range_m t)
                                                   [0..<numFreqBins])
                                          [0..<numTimeBins]))))))"

text \<open>
  What the spectrogram panel of the viewer shows for a single-channel series: the
  viewer's own \<^verbatim>\<open>No Data\<close> text for an empty series, and otherwise the component, which
  renders a placeholder while \<^verbatim>\<open>specData\<close> is \<^verbatim>\<open>null\<close> and a canvas that the effect
  paints otherwise. The viewer passes \<^verbatim>\<open>height={500}\<close>.
\<close>

datatype panel = NoData | Processing | Canvas draw_outcome

definition spectrogram_panel ::
  "bool \<Rightarrow> bool \<Rightarrow> nat option \<Rightarrow> jsnum list \<Rightarrow> jsnum \<Rightarrow> (error + panel) option" where
  "spectrogram_panel has_canvas has_ctx clientWidth series sampleRate =
     (if 0 < length series then
        (case specData series sampleRate of
           None \<Rightarrow> None
         | Some (Inl e) \<Rightarrow> Some (Inl e)
         | Some (Inr None) \<Rightarrow> Some (Inr Processing)
         | Some (Inr (Some d)) \<Rightarrow>
             (case spectrogram_draw has_canvas has_ctx clientWidth 500 (Some d) of
                Inl e \<Rightarrow> Some (Inl e)
              | Inr out \<Rightarrow> Some (Inr (Canvas out))))
      else Some (Inr NoData))"

section \<open>The time axis of the waveform renderer (\<^verbatim>\<open>EEGCanvas\<close>)\<close>







section \<open>Strings and the parsing built-ins\<close>

text \<open>
  \<^verbatim>\<open>String.prototype.trim\<close>, \<^verbatim>\<open>parseFloat\<close> and \<^verbatim>\<open>parseInt\<close> are built-ins of the
  language; they are modelled from the language standard, on strings of code units below
  256. The white space of the standard in that range is TAB, LF, VT, FF, CR, SP and NBSP.
\<close>

definition is_js_space :: "char \<Rightarrow> bool" where
  "is_js_space c = (of_char c \<in> {9, 10, 11, 12, 13, 32, 160 :: nat})"

definition trimStart :: "string \<Rightarrow> string" where
  "trimStart s = dropWhile is_js_space s"

definition trim :: "string \<Rightarrow> string" where
  "trim s = rev (dropWhile is_js_space (rev (dropWhile is_js_space s)))"

definition is_digit :: "char \<Rightarrow> bool" where
  "is_digit c = (48 \<le> (of_char c :: nat) \<and> (of_char c :: nat) \<le> 57)"

definition digit_val :: "char \<Rightarrow> nat" where
  "digit_val c = of_char c - 48"

definition dec_value :: "string \<Rightarrow> nat" where
  "dec_value ds = foldl (\<lambda>a c. 10 * a + digit_val c) 0 ds"

definition is_hex_digit :: "char \<Rightarrow> bool" where
  "is_hex_digit c =
     (is_digit c \<or> (65 \<le> (of_char c :: nat) \<and> (of_char c :: nat) \<le> 70)
                \<or> (97 \<le> (of_char c :: nat) \<and> (of_char c :: nat) \<le> 102))"

definition hex_digit_val :: "char \<Rightarrow> nat" where
  "hex_digit_val c =
     (if is_digit c then of_char c - 48
      else if (of_char c :: nat) \<le> 70 then of_char c - 55
      else of_char c - 87)"

definition hex_value :: "string \<Rightarrow> nat" where
  "hex_value ds = foldl (\<lambda>a c. 16 * a + hex_digit_val c) 0 ds"

text \<open>An optional sign: the factor and the rest of the text.\<close>

fun split_sign :: "string \<Rightarrow> real \<times> string" where
  "split_sign [] = (1, [])"
| "split_sign (c # cs) =
     (if c = CHR ''-'' then (- 1, cs) else if c = CHR ''+'' then (1, cs) else (1, c # cs))"

text \<open>The exponent part \<^verbatim>\<open>e\<close>, sign, digits of a decimal literal; 0 when there is none.\<close>

definition exponent_of :: "string \<Rightarrow> int" where
  "exponent_of r =
     (case r of
        [] \<Rightarrow> 0
      | c # cs \<Rightarrow>
          if c = CHR ''e'' \<or> c = CHR ''E'' then
            (case split_sign cs of
               (sg, r') \<Rightarrow>
                 (let ed = takeWhile is_digit r'
                  in if ed = [] then 0
                     else if sg < 0 then - int (dec_value ed) else int (dec_value ed)))
          else 0)"

text \<open>
  The number that a parsed text of mathematical value \<open>x\<close> denotes. Rounding to the
  nearest double turns every value from \<open>2\<^sup>1\<^sup>0\<^sup>2\<^sup>4 - 2\<^sup>9\<^sup>7\<^sup>0\<close> on into \<^verbatim>\<open>Infinity\<close>, and
  every value down from its negative into \<^verbatim>\<open>-Infinity\<close>. The rounding of the values
  between the two is not modelled.
\<close>

definition overflow_bound :: real where
  "overflow_bound = 2 ^ 1024 - 2 ^ 970"

definition to_number :: "real \<Rightarrow> jsnum" where
  "to_number x =
     (if overflow_bound \<le> x then PosInf else if x \<le> - overflow_bound then NegInf else Num x)"

text \<open>
  \<^verbatim>\<open>parseFloat\<close>: leading white space is skipped, the longest prefix that is a decimal
  literal (or a signed \<^verbatim>\<open>Infinity\<close>) is read, and the rest is ignored; \<^verbatim>\<open>NaN\<close> when
  there is no such prefix.
\<close>

definition parseFloat :: "string \<Rightarrow> jsnum" where
  "parseFloat s =
     (case split_sign (trimStart s) of
        (sg, u) \<Rightarrow>
          if take 8 u = ''Infinity'' then (if sg < 0 then NegInf else PosInf)
          else
            (let ip = takeWhile is_digit u;
                 r1 = dropWhile is_digit u;
                 fp = (case r1 of [] \<Rightarrow> [] | c # cs \<Rightarrow> if c = CHR ''.'' then takeWhile is_digit cs else []);
                 r2 = (case r1 of [] \<Rightarrow> [] | c # cs \<Rightarrow> if c = CHR ''.'' then dropWhile is_digit cs else r1)
             in if ip = [] \<and> fp = [] then NaN
                else to_number (sg * (real (dec_value ip) + real (dec_value fp) / 10 ^ length fp)
                                   * 10 powi exponent_of r2)))"

text \<open>
  \<^verbatim>\<open>parseInt\<close> without a radix: leading white space is skipped, a sign is read, a prefix
  \<^verbatim>\<open>0x\<close> or \<^verbatim>\<open>0X\<close> selects base 16, and the longest run of digits of the base is read;
  \<^verbatim>\<open>NaN\<close> when the run is empty, and an infinity when the run is too long for a double.
\<close>

definition parseInt :: "string \<Rightarrow> jsnum" where
  "parseInt s =
     (case split_sign (trimStart s) of
        (sg, u) \<Rightarrow>
          if take 2 u = ''0x'' \<or> take 2 u = ''0X'' then
            (let ds = takeWhile is_hex_digit (drop 2 u)
             in if ds = [] then NaN else to_number (sg * real (hex_value ds)))
          else
            (let ds = takeWhile is_digit u
             in if ds = [] then NaN else to_number (sg * real (dec_value ds))))"

section \<open>The trial and view controller (the \<^verbatim>\<open>ViewerStep\<close> component)\<close>

datatype DataOrientation = rows_are_time | rows_are_channels

record FileConfig =
  samplingRate :: jsnum
  channelCount :: jsnum
  skipRows :: jsnum
  skipCols :: jsnum
  trialDurationSec :: jsnum
  orientation :: DataOrientation

datatype annotation_type = artifact | seizure | normal | other

record Annotation =
  ann_id :: string
  trialIndex :: jsnum
  timestamp :: jsnum
  ann_note :: string
  ann_type :: annotation_type

datatype view_mode = raw | spectrogram

text \<open>The state hooks of the component.\<close>

record viewer_state =
  currentTrial :: jsnum
  annotations :: "Annotation list"
  newNote :: string
  selectedType :: annotation_type
  yScale :: jsnum
  tempScale :: string
  tempDuration :: string
  viewMode :: view_mode
  spectrogramChannel :: nat
  isScrollMode :: bool

text \<open>The calls the component makes to the callbacks it was given by the owning session.\<close>

datatype callback =
  onUpdateAnnotations "Annotation list"
| onConfigChange FileConfig
| onGainChange jsnum

text \<open>The initial values of the state hooks; \<^verbatim>\<open>initialGain\<close> is an optional property.\<close>

definition initial_gain :: "jsnum option \<Rightarrow> jsnum" where
  "initial_gain initialGain = (case initialGain of None \<Rightarrow> Num 1 | Some g \<Rightarrow> jor g (Num 1))"

definition initial_state :: "FileConfig \<Rightarrow> Annotation list \<Rightarrow> jsnum option \<Rightarrow> viewer_state" where
  "initial_state config existingAnnotations initialGain =
     \<lparr>currentTrial = Num 0,
      annotations = existingAnnotations,
      newNote = [],
      selectedType = normal,
      yScale = initial_gain initialGain,
      tempScale = num_to_string (initial_gain initialGain),
      tempDuration = num_to_string (trialDurationSec config),
      viewMode = raw,
      spectrogramChannel = 0,
      isScrollMode = False\<rparr>"

subsection \<open>Debounced inputs\<close>

text \<open>
  The hook \<^verbatim>\<open>useDebounce\<close> hands the text of an input field on once it has not changed
  for 500 ms; the two effects below run with that text. The timer itself is not modelled.
  The gain effect: \<^verbatim>\<open>if (!isNaN(val) && val !== yScale) { setYScale(val); onGainChange?.(val); }\<close>
  with \<^verbatim>\<open>val = parseFloat(debouncedScale)\<close>; the callback is optional.
\<close>

definition gain_effect :: "bool \<Rightarrow> string \<Rightarrow> viewer_state \<Rightarrow> viewer_state \<times> callback list" where
  "gain_effect has_onGainChange debouncedScale st =
     (let val = parseFloat debouncedScale in
      if \<not> isNaN val \<and> \<not> jeq val (yScale st) then
        (st\<lparr>yScale := val\<rparr>, if has_onGainChange then [onGainChange val] else [])
      else (st, []))"

text \<open>
  The duration effect:
  \<^verbatim>\<open>if (!isNaN(val) && val > 0 && val !== config.trialDurationSec) onConfigChange({...config, trialDurationSec: val})\<close>
  with \<^verbatim>\<open>val = parseInt(debouncedDuration)\<close>. The configuration is owned by the session.
\<close>

definition duration_effect :: "FileConfig \<Rightarrow> string \<Rightarrow> callback list" where
  "duration_effect config debouncedDuration =
     (let val = parseInt debouncedDuration in
      if \<not> isNaN val \<and> jgt val (Num 0) \<and> \<not> jeq val (trialDurationSec config) then
        [onConfigChange (config\<lparr>trialDurationSec := val\<rparr>)]
      else [])"

subsection \<open>Trials\<close>

definition pointsPerTrial :: "FileConfig \<Rightarrow> jsnum" where
  "pointsPerTrial config = jmul (samplingRate config) (trialDurationSec config)"

definition totalTrials :: "FileConfig \<Rightarrow> 'a list \<Rightarrow> jsnum" where
  "totalTrials config data = jceil (jdiv (Num (real (length data))) (pointsPerTrial config))"

text \<open>
  \<^verbatim>\<open>Array.prototype.slice(start, end)\<close> with numbers as arguments: each is truncated
  towards zero (\<^verbatim>\<open>NaN\<close> counts as 0), a negative one counts from the end of the array,
  and both are clamped to the array.
\<close>

definition truncate :: "real \<Rightarrow> int" where
  "truncate a = (if 0 \<le> a then \<lfloor>a\<rfloor> else \<lceil>a\<rceil>)"

fun slice_index :: "nat \<Rightarrow> jsnum \<Rightarrow> nat" where
  "slice_index len (Num a) =
     (if truncate a < 0 then nat (max (int len + truncate a) 0) else min (nat (truncate a)) len)"
| "slice_index len PosInf = len"
| "slice_index len NegInf = 0"
| "slice_index len NaN = 0"

definition js_slice :: "'a list \<Rightarrow> jsnum \<Rightarrow> jsnum \<Rightarrow> 'a list" where
  "js_slice xs start end_n =
     (let k = slice_index (length xs) start;
          final = slice_index (length xs) end_n
      in take (final - k) (drop k xs))"

definition currentTrialDataSlice :: "FileConfig \<Rightarrow> 'a list \<Rightarrow> viewer_state \<Rightarrow> 'a list" where
  "currentTrialDataSlice config data st =
     (if isScrollMode st then data
      else
        (let startIndex = jmul (currentTrial st) (pointsPerTrial config);
             endIndex = jmin (jadd startIndex (pointsPerTrial config)) (Num (real (length data)))
         in js_slice data startIndex endIndex))"

text \<open>\<^verbatim>\<open>row[spectrogramChannel] || 0\<close>: a missing, zero or \<^verbatim>\<open>NaN\<close> entry reads as 0.\<close>

definition channel_value :: "jsnum list \<Rightarrow> nat \<Rightarrow> jsnum" where
  "channel_value row ch = (if ch < length row then jor (row ! ch) (Num 0) else Num 0)"

definition spectrogramDataSeries :: "FileConfig \<Rightarrow> jsnum list list \<Rightarrow> viewer_state \<Rightarrow> jsnum list" where
  "spectrogramDataSeries config data st =
     (if viewMode st \<noteq> spectrogram then []
      else map (\<lambda>row. channel_value row (spectrogramChannel st)) (currentTrialDataSlice config data st))"

subsection \<open>Navigation\<close>

text \<open>
  \<^verbatim>\<open>setCurrentTrial(c => Math.max(0, c - 1))\<close> and
  \<^verbatim>\<open>setCurrentTrial(c => Math.min(totalTrials - 1, c + 1))\<close>.
\<close>

definition handlePrev :: "viewer_state \<Rightarrow> viewer_state" where
  "handlePrev st = st\<lparr>currentTrial := jmax (Num 0) (jsub (currentTrial st) (Num 1))\<rparr>"

definition handleNext :: "FileConfig \<Rightarrow> 'a list \<Rightarrow> viewer_state \<Rightarrow> viewer_state" where
  "handleNext config data st =
     st\<lparr>currentTrial := jmin (jsub (totalTrials config data) (Num 1)) (jadd (currentTrial st) (Num 1))\<rparr>"

definition jumpToTrial :: "jsnum \<Rightarrow> viewer_state \<Rightarrow> viewer_state" where
  "jumpToTrial idx st = st\<lparr>currentTrial := idx\<rparr>"

subsection \<open>Annotations\<close>

text \<open>
  \<^verbatim>\<open>addAnnotation\<close>; the argument \<^verbatim>\<open>now\<close> is the value of \<^verbatim>\<open>Date.now()\<close>, a count of
  milliseconds. An empty string is falsy, so \<^verbatim>\<open>!newNote.trim()\<close> holds exactly when the
  trimmed note is empty.
\<close>

definition addAnnotation :: "FileConfig \<Rightarrow> nat \<Rightarrow> viewer_state \<Rightarrow> viewer_state \<times> callback list" where
  "addAnnotation config now st =
     (if trim (newNote st) = [] then (st, [])
      else
        (let newAnn = \<lparr>ann_id = num_to_string (Num (real now)),
                       trialIndex = currentTrial st,
                       timestamp = jmul (currentTrial st) (trialDurationSec config),
                       ann_note = newNote st,
                       ann_type = selectedType st\<rparr>;
             updated = annotations st @ [newAnn]
         in (st\<lparr>annotations := updated, newNote := []\<rparr>, [onUpdateAnnotations updated])))"

definition deleteAnnotation :: "string \<Rightarrow> viewer_state \<Rightarrow> viewer_state \<times> callback list" where
  "deleteAnnotation ident st =
     (let updated = filter (\<lambda>a. ann_id a \<noteq> ident) (annotations st)
      in (st\<lparr>annotations := updated\<rparr>, [onUpdateAnnotations updated]))"

section \<open>The spectrogram in closed form\<close>

text \<open>
  The definitions of this section restate the engine for the proofs: the padded length
  as a natural number, the sliding-window loop as a recursion over the list of window
  starts, and one row of the grid as the specification describes it.
\<close>

definition pow2_of :: "nat \<Rightarrow> nat" where
  "pow2_of n = (if n = 0 then 0 else 2 ^ nat \<lceil>log 2 (real n)\<rceil>)"

fun stft_fold ::
  "jsnum list \<Rightarrow> jsnum list \<Rightarrow> nat list \<Rightarrow> jsnum list list \<times> jsnum \<times> jsnum
     \<Rightarrow> error + jsnum list list \<times> jsnum \<times> jsnum" where
  "stft_fold signal windowFunc [] st = Inr st"
| "stft_fold signal windowFunc (i # starts) st =
     (case computeMagnitude (window_chunk signal windowFunc (Num (real i))) of
        Inl e \<Rightarrow> Inl e
      | Inr mags \<Rightarrow>
          (case st of (result, mx, mn) \<Rightarrow>
             (case log_mags mags mx mn of (logMags, mx', mn') \<Rightarrow>
                stft_fold signal windowFunc starts (result @ [logMags], mx', mn'))))"

text \<open>The number of rows the specification gives: \<open>\<lfloor>(N - windowSize) / step\<rfloor> + 1\<close>.\<close>

definition window_count :: "nat \<Rightarrow> nat \<Rightarrow> nat \<Rightarrow> nat" where
  "window_count n w s = (n - w) div s + 1"

text \<open>
  Row \<open>r\<close> in the specification's words: the samples from \<open>r * step\<close> up to
  \<open>r * step + windowSize\<close>, multiplied pointwise by the Hann coefficients and padded with
  zeros to the padded length, as complex numbers; then, of a spectrum, the magnitude of
  each of the first half of the bins mapped to \<open>20 * log10 (magnitude + 1e-6)\<close>.
\<close>

definition hann_coefficients :: "nat \<Rightarrow> jsnum list" where
  "hann_coefficients w = map (hann_coeff (Num (real w))) [0..<w]"


text \<open>
  A property of complex numbers that every step of the transform's loop hands on from the
  two entries it reads to the two entries it writes.
\<close>

definition handed_on :: "(Complex_js \<Rightarrow> bool) \<Rightarrow> bool" where
  "handed_on P =
     (\<forall>n k ek ok. 0 < n \<and> P ek \<and> P ok \<longrightarrow>
        P (fst (butterfly_pair (twiddle k n) ek ok)) \<and> P (snd (butterfly_pair (twiddle k n) ek ok)))"

text \<open>The same padded window for any window function and a window start \<open>i\<close>.\<close>

definition padded_chunk :: "jsnum list \<Rightarrow> jsnum list \<Rightarrow> nat \<Rightarrow> Complex_js list" where
  "padded_chunk signal windowFunc i =
     map (\<lambda>x. \<lparr>real_c = x, imag_c = Num 0\<rparr>)
       (map2 jmul (take (length windowFunc) (drop i signal)) windowFunc
          @ replicate (pow2_of (length windowFunc) - length windowFunc) (Num 0))"

definition spec_row_of_spectrum :: "Complex_js list \<Rightarrow> jsnum list" where
  "spec_row_of_spectrum spectrum =
     map (\<lambda>c. jmul (Num 20) (jlog 10 (jadd (jsqrt (jadd (jmul (real_c c) (real_c c))
                                                       (jmul (imag_c c) (imag_c c))))
                                          (Num (1 / 10 ^ 6)))))
       (take (length spectrum div 2) spectrum)"



text \<open>
  The running maximum and minimum after the entries \<open>seen\<close>: the two infinities before
  the first entry, and a greatest and a least entry after it.
\<close>

definition extremes :: "jsnum list \<Rightarrow> jsnum \<Rightarrow> jsnum \<Rightarrow> bool" where
  "extremes seen mx mn =
     (if seen = [] then mx = NegInf \<and> mn = PosInf
      else mx \<in> set seen \<and> mn \<in> set seen \<and> list_all (\<lambda>x. jle x mx \<and> jle mn x) seen)"

text \<open>A number that is not \<^verbatim>\<open>NaN\<close> and not infinite.\<close>

fun is_finite :: "jsnum \<Rightarrow> bool" where
  "is_finite (Num a) = True"
| "is_finite _ = False"

definition czero :: Complex_js where
  "czero = \<lparr>real_c = Num 0, imag_c = Num 0\<rparr>"

definition all_zero :: "jsnum list \<Rightarrow> bool" where
  "all_zero signal = list_all (\<lambda>x. x = Num 0) signal"

section \<open>Sample inputs\<close>

text \<open>
  A configuration of 100 Hz with trials of 5 s, as in the specification's example of
  trial windowing, and a matrix of a given number of one-channel rows.
\<close>

definition demo_config :: FileConfig where
  "demo_config =
     \<lparr>samplingRate = Num 100, channelCount = Num 1, skipRows = Num 0, skipCols = Num 0,
      trialDurationSec = Num 5, orientation = rows_are_time\<rparr>"

definition demo_matrix :: "nat \<Rightarrow> jsnum list list" where
  "demo_matrix n = map (\<lambda>k. [Num (real k)]) [0..<n]"

text \<open>The state hook setters of the note field and of the paging mode.\<close>

definition setNewNote :: "string \<Rightarrow> viewer_state \<Rightarrow> viewer_state" where
  "setNewNote text st = st\<lparr>newNote := text\<rparr>"

definition setIsScrollMode :: "bool \<Rightarrow> viewer_state \<Rightarrow> viewer_state" where
  "setIsScrollMode b st = st\<lparr>isScrollMode := b\<rparr>"



text \<open>A text of 310 digits: \<^verbatim>\<open>1\<close> followed by 309 zeros.\<close>

definition long_digits :: string where
  "long_digits = CHR ''1'' # replicate 309 (CHR ''0'')"

section \<open>Properties of the number model\<close>

lemma jle_Num [simp]: "jle (Num a) (Num b) = (a \<le> b)"
  by (auto simp: jle_def jeq_def)

lemma jge_Num [simp]: "jge (Num a) (Num b) = (b \<le> a)"
  by (simp add: jge_def)

lemma jgt_Num [simp]: "jgt (Num a) (Num b) = (b < a)"
  by (simp add: jgt_def)

lemma jsub_Num [simp]: "jsub (Num a) (Num b) = Num (a - b)"
  by (simp add: jsub_def)

lemma jmin_Num [simp]: "jmin (Num a) (Num b) = Num (min a b)"
  by (auto simp: jmin_def)

lemma jmax_Num [simp]: "jmax (Num a) (Num b) = Num (max a b)"
  by (auto simp: jmax_def)

lemma jge_one_cases:
  assumes "jge t (Num 1)"
  obtains a where "t = Num a" "1 \<le> a" | "t = PosInf"
  using assms by (cases t) (auto simp: jge_def jle_def jeq_def)

section \<open>Navigation between trials\<close>

lemma totalTrials_demo_1000: "totalTrials demo_config (demo_matrix 1000) = Num 2"
  by (simp add: totalTrials_def pointsPerTrial_def demo_config_def demo_matrix_def)

lemma totalTrials_demo_empty: "totalTrials demo_config (demo_matrix 0) = Num 0"
  by (simp add: totalTrials_def pointsPerTrial_def demo_config_def demo_matrix_def)

lemma currentTrial_initial: "currentTrial (initial_state config anns g) = Num 0"
  by (simp add: initial_state_def)

text \<open>
  Claim C9. Whenever the total trial count is at least 1: \<^verbatim>\<open>previous\<close> at trial 0 leaves
  the current trial at 0, and \<^verbatim>\<open>next\<close> at the last trial \<^verbatim>\<open>totalTrials - 1\<close> leaves it
  unchanged. Both handlers are total functions of the state; they raise nothing.
\<close>

theorem navigation_clamp:
  assumes "jge (totalTrials config data) (Num 1)"
  shows "(currentTrial st = Num 0 \<longrightarrow> currentTrial (handlePrev st) = Num 0)
       \<and> (currentTrial st = jsub (totalTrials config data) (Num 1)
            \<longrightarrow> currentTrial (handleNext config data st) = currentTrial st)"
proof -
  from assms show ?thesis
  proof (cases rule: jge_one_cases)
    case (1 a)
    then show ?thesis by (simp add: handlePrev_def handleNext_def)
  next
    case 2
    then show ?thesis by (simp add: handlePrev_def handleNext_def jsub_def jmin_def)
  qed
qed

theorem navigation_clamp_witness:
  "jge (totalTrials demo_config (demo_matrix 1000)) (Num 1)
   \<and> currentTrial (handlePrev (initial_state demo_config [] None)) = Num 0
   \<and> currentTrial (handleNext demo_config (demo_matrix 1000)
        (jumpToTrial (Num 1) (initial_state demo_config [] None))) = Num 1"
proof -
  have h: "jge (totalTrials demo_config (demo_matrix 1000)) (Num 1)"
    by (simp add: totalTrials_demo_1000)
  have b: "currentTrial (jumpToTrial (Num 1) (initial_state demo_config [] None))
            = jsub (totalTrials demo_config (demo_matrix 1000)) (Num 1)"
    by (simp add: jumpToTrial_def totalTrials_demo_1000)
  from navigation_clamp [OF h, of "initial_state demo_config [] None"]
  have p: "currentTrial (handlePrev (initial_state demo_config [] None)) = Num 0"
    by (simp add: currentTrial_initial)
  from navigation_clamp [OF h, of "jumpToTrial (Num 1) (initial_state demo_config [] None)"] b
  have n: "currentTrial (handleNext demo_config (demo_matrix 1000)
        (jumpToTrial (Num 1) (initial_state demo_config [] None))) = Num 1"
    by (simp add: jumpToTrial_def)
  from h p n show ?thesis by simp
qed

text \<open>
  Claim C10. When the loaded matrix is empty, so that the total trial count is 0, and the
  current trial is 0: \<^verbatim>\<open>next\<close> sets the current trial to \<^verbatim>\<open>-1\<close>, which is
  \<^verbatim>\<open>min(totalTrials - 1, currentTrial + 1)\<close>, and \<^verbatim>\<open>previous\<close> leaves it at 0; the
  index has then left the range from 0 to \<^verbatim>\<open>totalTrials - 1\<close>.
\<close>

theorem empty_matrix_next:
  assumes "data = []" and "totalTrials config data = Num 0" and "currentTrial st = Num 0"
  shows "currentTrial (handleNext config data st) = Num (- 1)
       \<and> currentTrial (handleNext config data st)
           = jmin (jsub (totalTrials config data) (Num 1)) (jadd (currentTrial st) (Num 1))
       \<and> currentTrial (handlePrev st) = Num 0
       \<and> \<not> jle (Num 0) (currentTrial (handleNext config data st))"
  using assms by (simp add: handleNext_def handlePrev_def)

theorem empty_matrix_next_witness:
  "demo_matrix 0 = []
   \<and> totalTrials demo_config (demo_matrix 0) = Num 0
   \<and> currentTrial (initial_state demo_config [] None) = Num 0
   \<and> currentTrial (handleNext demo_config (demo_matrix 0) (initial_state demo_config [] None)) = Num (- 1)
   \<and> currentTrial (handlePrev (initial_state demo_config [] None)) = Num 0"
proof -
  have e: "demo_matrix 0 = []"
    by (simp add: demo_matrix_def)
  from empty_matrix_next [OF e totalTrials_demo_empty currentTrial_initial] e
    totalTrials_demo_empty currentTrial_initial [of demo_config "[]" None]
  show ?thesis by simp
qed

section \<open>Colour mapping\<close>

lemma clamp_unit: "0 \<le> x \<Longrightarrow> x \<le> 1 \<Longrightarrow> jmax (Num 0) (jmin (Num 1) (Num x)) = Num x"
  by simp

lemma heatmap_rgb_Num:
  assumes "0 \<le> x" "x \<le> 1"
  shows "heatmap_rgb (Num x) =
     (if x < 1/4 then (Num 0, Num 0, Num (of_int \<lfloor>x * 4 * 255\<rfloor>))
      else if x < 1/2 then
        (Num (of_int \<lfloor>(x - 1/4) * 4 * 255\<rfloor>), Num 0, Num (255 - of_int \<lfloor>(x - 1/4) * 4 * 200\<rfloor>))
      else if x < 3/4 then (Num 255, Num (of_int \<lfloor>(x - 1/2) * 4 * 255\<rfloor>), Num 0)
      else (Num 255, Num 255, Num (of_int \<lfloor>(x - 3/4) * 4 * 255\<rfloor>)))"
  using assms by (simp add: heatmap_rgb_def)

lemma floor_scale_mono:
  "u \<le> v \<Longrightarrow> 0 \<le> c \<Longrightarrow> \<lfloor>(u - a) * 4 * c\<rfloor> \<le> \<lfloor>(v - a) * 4 * (c::real)\<rfloor>"
  by (intro floor_mono mult_right_mono) simp_all

lemma in_segment_unit: "in_segment k x \<Longrightarrow> 0 \<le> x \<and> x \<le> 1"
  by (cases k) simp_all

lemma heatmap_black: "getHeatmapColor (Num 0) = ''rgb(0,0,0)''"
  by (simp add: getHeatmapColor_def heatmap_rgb_Num red_def green_def blue_def
      int_to_string_def digits.simps digit_char_def)

lemma heatmap_white: "getHeatmapColor (Num 1) = ''rgb(255,255,255)''"
  by (simp add: getHeatmapColor_def heatmap_rgb_Num red_def green_def blue_def
      int_to_string_def digits.simps digit_char_def)

lemma heatmap_segment_mono:
  assumes "u \<le> v" and "in_segment k u" and "in_segment k v"
  shows "jle (red (heatmap_rgb (Num u))) (red (heatmap_rgb (Num v)))
       \<and> jle (green (heatmap_rgb (Num u))) (green (heatmap_rgb (Num v)))
       \<and> (if k = Seg2 then jle (blue (heatmap_rgb (Num v))) (blue (heatmap_rgb (Num u)))
          else jle (blue (heatmap_rgb (Num u))) (blue (heatmap_rgb (Num v))))"
proof -
  have f: "\<lfloor>(u - a) * 4 * c\<rfloor> \<le> \<lfloor>(v - a) * 4 * c\<rfloor>" if "0 \<le> c" for a c :: real
    using floor_scale_mono [OF assms(1) that] .
  have f0: "\<lfloor>u * 4 * 255\<rfloor> \<le> \<lfloor>v * 4 * 255\<rfloor>"
    using f [of 255 0] by simp
  show ?thesis
  proof (cases k)
    case Seg1
    then show ?thesis using assms(2,3) f0
      by (simp add: heatmap_rgb_Num red_def green_def blue_def)
  next
    case Seg2
    then show ?thesis using assms(2,3) f [of 255 "1/4"] f [of 200 "1/4"]
      by (simp add: heatmap_rgb_Num red_def green_def blue_def)
  next
    case Seg3
    then show ?thesis using assms(2,3) f [of 255 "1/2"]
      by (simp add: heatmap_rgb_Num red_def green_def blue_def)
  next
    case Seg4
    then show ?thesis using assms(2,3) f [of 255 "3/4"]
      by (simp add: heatmap_rgb_Num red_def green_def blue_def)
  qed
qed

text \<open>
  Claim C2, as amended. \<^verbatim>\<open>getHeatmapColor(0)\<close> is \<^verbatim>\<open>rgb(0,0,0)\<close> and
  \<^verbatim>\<open>getHeatmapColor(1)\<close> is \<^verbatim>\<open>rgb(255,255,255)\<close>; for inputs \<open>u \<le> v\<close> in the
  same one of the four segments, the red and the green component at \<open>u\<close> are at most
  those at \<open>v\<close>, and so is the blue component in the first, third and fourth segment;
  in the second segment, from 0.25 up to 0.5, the blue component falls: there its value
  at \<open>v\<close> is at most its value at \<open>u\<close>.
\<close>

theorem heatmap_ramp:
  assumes "u \<le> v" and "in_segment k u" and "in_segment k v"
  shows "getHeatmapColor (Num 0) = ''rgb(0,0,0)''
       \<and> getHeatmapColor (Num 1) = ''rgb(255,255,255)''
       \<and> jle (red (heatmap_rgb (Num u))) (red (heatmap_rgb (Num v)))
       \<and> jle (green (heatmap_rgb (Num u))) (green (heatmap_rgb (Num v)))
       \<and> (if k = Seg2 then jle (blue (heatmap_rgb (Num v))) (blue (heatmap_rgb (Num u)))
          else jle (blue (heatmap_rgb (Num u))) (blue (heatmap_rgb (Num v))))"
  using heatmap_black heatmap_white heatmap_segment_mono [OF assms] by simp

theorem heatmap_ramp_witness:
  "in_segment Seg2 (1/4) \<and> in_segment Seg2 (3/8)
   \<and> blue (heatmap_rgb (Num (1/4))) = Num 255 \<and> blue (heatmap_rgb (Num (3/8))) = Num 155
   \<and> jle (blue (heatmap_rgb (Num (3/8)))) (blue (heatmap_rgb (Num (1/4))))
   \<and> jle (red (heatmap_rgb (Num (1/4)))) (red (heatmap_rgb (Num (3/8))))"
proof -
  have h: "(1/4 :: real) \<le> 3/8" "in_segment Seg2 (1/4)" "in_segment Seg2 (3/8)"
    by simp_all
  have b: "blue (heatmap_rgb (Num (1/4))) = Num 255" "blue (heatmap_rgb (Num (3/8))) = Num 155"
    by (simp_all add: heatmap_rgb_Num blue_def)
  from heatmap_ramp [OF h] h b show ?thesis by simp
qed

text \<open>
  The claim as stated fails: 0.25 and 0.375 lie in the second segment, and the blue
  component is 255 at the first and 155 at the second.
\<close>

theorem heatmap_blue_falls:
  "in_segment Seg2 (1/4) \<and> in_segment Seg2 (3/8) \<and> (1/4 :: real) \<le> 3/8
   \<and> \<not> jle (blue (heatmap_rgb (Num (1/4)))) (blue (heatmap_rgb (Num (3/8))))"
  by (simp add: heatmap_rgb_Num blue_def)

section \<open>Annotations\<close>

lemma trim_empty_iff: "trim s = [] \<longleftrightarrow> (\<forall>c\<in>set s. is_js_space c)"
proof
  assume "trim s = []"
  then have "\<forall>c\<in>set (dropWhile is_js_space s). is_js_space c"
    by (simp add: trim_def dropWhile_eq_Nil_conv)
  then have "dropWhile is_js_space s = []"
    using hd_dropWhile [of is_js_space s] by (cases "dropWhile is_js_space s") auto
  then show "\<forall>c\<in>set s. is_js_space c"
    by (simp add: dropWhile_eq_Nil_conv)
next
  assume "\<forall>c\<in>set s. is_js_space c"
  then show "trim s = []"
    by (auto simp: trim_def dest: set_dropWhileD)
qed

text \<open>
  Claim C8. For every annotation list, current trial and trial duration: adding with a
  note that is empty or consists of white space only changes nothing (the state is the
  same and no callback is made); adding with a note that has a character other than
  white space appends exactly one annotation to the list, whose \<^verbatim>\<open>trialIndex\<close> is the
  current trial and whose \<^verbatim>\<open>timestamp\<close> is the current trial times the trial
  duration; the annotations already in the list stay as they are, in front of it.
\<close>

theorem addAnnotation_note:
  "((\<forall>c\<in>set (newNote st). is_js_space c) \<longrightarrow> addAnnotation config now st = (st, []))
   \<and> ((\<exists>c\<in>set (newNote st). \<not> is_js_space c) \<longrightarrow>
        (\<exists>a. annotations (fst (addAnnotation config now st)) = annotations st @ [a]
            \<and> trialIndex a = currentTrial st
            \<and> timestamp a = jmul (currentTrial st) (trialDurationSec config)
            \<and> snd (addAnnotation config now st) = [onUpdateAnnotations (annotations st @ [a])]))"
proof (intro conjI impI)
  assume "\<forall>c\<in>set (newNote st). is_js_space c"
  then show "addAnnotation config now st = (st, [])"
    by (simp add: addAnnotation_def trim_empty_iff)
next
  assume "\<exists>c\<in>set (newNote st). \<not> is_js_space c"
  then have "trim (newNote st) \<noteq> []"
    by (simp add: trim_empty_iff)
  then show "\<exists>a. annotations (fst (addAnnotation config now st)) = annotations st @ [a]
            \<and> trialIndex a = currentTrial st
            \<and> timestamp a = jmul (currentTrial st) (trialDurationSec config)
            \<and> snd (addAnnotation config now st) = [onUpdateAnnotations (annotations st @ [a])]"
    by (simp add: addAnnotation_def Let_def)
qed

lemma space_chars: "is_js_space CHR '' ''" "\<not> is_js_space CHR ''s''"
  by (simp_all add: is_js_space_def)

theorem addAnnotation_note_witness:
  "addAnnotation demo_config 0 (setNewNote ''  '' (jumpToTrial (Num 2) (initial_state demo_config [] None)))
     = (setNewNote ''  '' (jumpToTrial (Num 2) (initial_state demo_config [] None)), [])
   \<and> map timestamp (annotations (fst (addAnnotation demo_config 0
        (setNewNote ''spike'' (jumpToTrial (Num 2) (initial_state demo_config [] None)))))) = [Num 10]
   \<and> map trialIndex (annotations (fst (addAnnotation demo_config 0
        (setNewNote ''spike'' (jumpToTrial (Num 2) (initial_state demo_config [] None)))))) = [Num 2]"
proof -
  let ?s = "jumpToTrial (Num 2) (initial_state demo_config [] None)"
  have blank: "\<forall>c\<in>set (newNote (setNewNote ''  '' ?s)). is_js_space c"
    by (simp add: setNewNote_def space_chars)
  have spike: "\<exists>c\<in>set (newNote (setNewNote ''spike'' ?s)). \<not> is_js_space c"
    by (simp add: setNewNote_def space_chars)
  have st: "annotations (setNewNote ''spike'' ?s) = []"
    "currentTrial (setNewNote ''spike'' ?s) = Num 2"
    "trialDurationSec demo_config = Num 5"
    by (simp_all add: setNewNote_def jumpToTrial_def initial_state_def demo_config_def)
  from addAnnotation_note [of "setNewNote ''  '' ?s" demo_config 0] blank
  have a: "addAnnotation demo_config 0 (setNewNote ''  '' ?s) = (setNewNote ''  '' ?s, [])"
    by blast
  from addAnnotation_note [of "setNewNote ''spike'' ?s" demo_config 0] spike
  obtain an where "annotations (fst (addAnnotation demo_config 0 (setNewNote ''spike'' ?s)))
        = annotations (setNewNote ''spike'' ?s) @ [an]"
    "trialIndex an = currentTrial (setNewNote ''spike'' ?s)"
    "timestamp an = jmul (currentTrial (setNewNote ''spike'' ?s)) (trialDurationSec demo_config)"
    by blast
  with st have b: "map timestamp (annotations (fst (addAnnotation demo_config 0 (setNewNote ''spike'' ?s)))) = [Num 10]"
    "map trialIndex (annotations (fst (addAnnotation demo_config 0 (setNewNote ''spike'' ?s)))) = [Num 2]"
    by simp_all
  from a b show ?thesis by simp
qed

section \<open>Trial windows\<close>

lemma truncate_of_nat [simp]: "truncate (real n) = int n"
  by (simp add: truncate_def)

lemma slice_index_nat [simp]: "slice_index len (Num (real n)) = min n len"
  by simp






lemma of_int_nat_pos: "0 < k \<Longrightarrow> real_of_int k = real (nat k)"
  by simp











section \<open>The time axis\<close>











section \<open>Committing the debounced inputs\<close>

lemma split_sign_fst: "fst (split_sign s) = 1 \<or> fst (split_sign s) = - 1"
  by (cases s) auto

lemma to_number_small: "\<bar>x\<bar> \<le> 2 ^ 53 \<Longrightarrow> to_number x = Num x"
proof -
  assume x: "\<bar>x\<bar> \<le> 2 ^ 53"
  have "(2::real) ^ 53 < overflow_bound" by (simp add: overflow_bound_def)
  with x show ?thesis by (auto simp: to_number_def)
qed

lemma to_number_cases:
  "to_number x = PosInf \<and> 0 < x \<or> to_number x = NegInf \<and> x < 0 \<or> to_number x = Num x"
proof -
  have "(0::real) < overflow_bound" by (simp add: overflow_bound_def)
  then show ?thesis by (auto simp: to_number_def)
qed

text \<open>
  \<^verbatim>\<open>parseInt\<close> returns \<^verbatim>\<open>NaN\<close>, an infinity or an integer; so a result that is a number
  above 0 is \<^verbatim>\<open>Infinity\<close> or a positive integer.
\<close>

lemma parseInt_cases:
  "parseInt s = NaN \<or> parseInt s = PosInf \<or> parseInt s = NegInf \<or> (\<exists>k::int. parseInt s = Num (of_int k))"
proof -
  obtain sg u where su: "split_sign (trimStart s) = (sg, u)"
    by (cases "split_sign (trimStart s)")
  with split_sign_fst [of "trimStart s"] have sg: "sg = 1 \<or> sg = - 1" by simp
  have int_val: "to_number (sg * real n) = PosInf \<or> to_number (sg * real n) = NegInf
      \<or> (\<exists>k::int. to_number (sg * real n) = Num (of_int k))" for n
  proof -
    from sg have "sg * real n = of_int (int n) \<or> sg * real n = of_int (- int n)" by auto
    then have "\<exists>k::int. sg * real n = of_int k" by blast
    with to_number_cases [of "sg * real n"] show ?thesis by metis
  qed
  show ?thesis
    using int_val by (simp add: parseInt_def su Let_def)
qed

lemma parseInt_positive:
  "(\<not> isNaN (parseInt s) \<and> jgt (parseInt s) (Num 0))
     = (parseInt s = PosInf \<or> (\<exists>k::int. 0 < k \<and> parseInt s = Num (of_int k)))"
  using parseInt_cases [of s] by (auto simp: isNaN_def jgt_def)

text \<open>A text of white space only, the empty text included, does not parse.\<close>

lemma parse_blank:
  assumes "list_all is_js_space s"
  shows "parseFloat s = NaN" "parseInt s = NaN"
proof -
  from assms have "trimStart s = []"
    by (simp add: trimStart_def list_all_iff)
  then show "parseFloat s = NaN" "parseInt s = NaN"
    by (simp_all add: parseFloat_def parseInt_def)
qed

lemma parse_samples:
  "parseFloat ''Infinity'' = PosInf"
  "parseFloat ''1'' = Num 1"
  "parseFloat ''2.5'' = Num (5 / 2)"
  "parseFloat ''abc'' = NaN"
  "parseInt ''5'' = Num 5"
  "parseInt ''10'' = Num 10"
  "parseInt ''0'' = Num 0"
  "parseInt ''abc'' = NaN"
  by (simp_all add: parseFloat_def parseInt_def trimStart_def is_js_space_def is_digit_def
      dec_value_def digit_val_def exponent_of_def to_number_small)

text \<open>The text of 310 digits is read as a whole, and its value \<open>10\<^sup>3\<^sup>0\<^sup>9\<close> overflows.\<close>

lemma dec_value_zeros: "foldl (\<lambda>a c. 10 * a + digit_val c) n (replicate k (CHR ''0'')) = n * 10 ^ k"
  by (induction k arbitrary: n) (simp_all add: digit_val_def)

lemma parseInt_long: "parseInt long_digits = PosInf"
proof -
  have digits: "takeWhile is_digit long_digits = long_digits"
    by (simp add: long_digits_def is_digit_def)
  have one: "digit_val CHR ''1'' = 1" by (simp add: digit_val_def)
  have val: "dec_value long_digits = 10 ^ 309"
    unfolding long_digits_def dec_value_def by (simp only: foldl_Cons dec_value_zeros one) simp
  have big: "overflow_bound \<le> real (10 ^ 309)"
    by (simp add: overflow_bound_def)
  have start: "split_sign (trimStart long_digits) = (1, long_digits)"
    by (simp add: long_digits_def trimStart_def is_js_space_def)
  have hex: "take 2 long_digits = ''10''"
    by (simp add: long_digits_def eval_nat_numeral)
  have ne: "long_digits \<noteq> []" by (simp add: long_digits_def)
  show ?thesis
    unfolding parseInt_def start prod.case hex Let_def digits val
    using big ne by (simp add: to_number_def)
qed

lemma yScale_initial: "yScale (initial_state config anns None) = Num 1"
  by (simp add: initial_state_def initial_gain_def)

text \<open>
  Claim C5, as amended. When the debounced text of the gain field reaches its effect, the
  edit is committed (the gain is set and the session is told) if and only if
  \<^verbatim>\<open>parseFloat\<close> of the text is not \<^verbatim>\<open>NaN\<close> and differs from the gain in effect; an
  infinite value is committed like a finite one. The edit of the trial duration is
  committed (the session is told the new configuration) if and only if \<^verbatim>\<open>parseInt\<close> of
  the text is a positive integer or \<^verbatim>\<open>Infinity\<close>, and differs from the trial duration in
  effect. In every other case nothing changes and no callback is made; a text of white
  space only, the empty text included, parses to \<^verbatim>\<open>NaN\<close> and is such a case.
\<close>

theorem commit_effects:
  "(\<not> isNaN (parseFloat text) \<and> \<not> jeq (parseFloat text) (yScale st) \<longrightarrow>
       gain_effect cb text st
         = (st\<lparr>yScale := parseFloat text\<rparr>, if cb then [onGainChange (parseFloat text)] else []))
   \<and> (isNaN (parseFloat text) \<or> jeq (parseFloat text) (yScale st) \<longrightarrow>
       gain_effect cb text st = (st, []))
   \<and> ((parseInt dtext = PosInf \<or> (\<exists>k::int. 0 < k \<and> parseInt dtext = Num (of_int k)))
         \<and> \<not> jeq (parseInt dtext) (trialDurationSec config) \<longrightarrow>
       duration_effect config dtext = [onConfigChange (config\<lparr>trialDurationSec := parseInt dtext\<rparr>)])
   \<and> (\<not> ((parseInt dtext = PosInf \<or> (\<exists>k::int. 0 < k \<and> parseInt dtext = Num (of_int k)))
            \<and> \<not> jeq (parseInt dtext) (trialDurationSec config)) \<longrightarrow>
       duration_effect config dtext = [])
   \<and> (list_all is_js_space blank \<longrightarrow>
       parseFloat blank = NaN \<and> parseInt blank = NaN
       \<and> gain_effect cb blank st = (st, []) \<and> duration_effect config blank = [])"
proof -
  have gain: "gain_effect cb t st
      = (if \<not> isNaN (parseFloat t) \<and> \<not> jeq (parseFloat t) (yScale st)
         then (st\<lparr>yScale := parseFloat t\<rparr>, if cb then [onGainChange (parseFloat t)] else [])
         else (st, []))" for t
    by (simp add: gain_effect_def Let_def)
  have dur: "duration_effect config t
      = (if (parseInt t = PosInf \<or> (\<exists>k::int. 0 < k \<and> parseInt t = Num (of_int k)))
              \<and> \<not> jeq (parseInt t) (trialDurationSec config)
         then [onConfigChange (config\<lparr>trialDurationSec := parseInt t\<rparr>)] else [])" for t
    unfolding parseInt_positive [symmetric] by (simp add: duration_effect_def Let_def)
  have blank: "parseFloat blank = NaN \<and> parseInt blank = NaN
       \<and> gain_effect cb blank st = (st, []) \<and> duration_effect config blank = []"
    if "list_all is_js_space blank"
    using parse_blank [OF that] by (simp add: gain_effect_def duration_effect_def isNaN_def)
  have a: "\<not> isNaN (parseFloat text) \<and> \<not> jeq (parseFloat text) (yScale st) \<longrightarrow>
       gain_effect cb text st
         = (st\<lparr>yScale := parseFloat text\<rparr>, if cb then [onGainChange (parseFloat text)] else [])"
    by (simp only: gain [of "text"]) simp
  have b: "isNaN (parseFloat text) \<or> jeq (parseFloat text) (yScale st) \<longrightarrow>
       gain_effect cb text st = (st, [])"
    by (simp only: gain [of "text"]) auto
  have c: "(parseInt dtext = PosInf \<or> (\<exists>k::int. 0 < k \<and> parseInt dtext = Num (of_int k)))
         \<and> \<not> jeq (parseInt dtext) (trialDurationSec config) \<longrightarrow>
       duration_effect config dtext = [onConfigChange (config\<lparr>trialDurationSec := parseInt dtext\<rparr>)]"
    by (simp only: dur [of dtext]) simp
  have d: "\<not> ((parseInt dtext = PosInf \<or> (\<exists>k::int. 0 < k \<and> parseInt dtext = Num (of_int k)))
            \<and> \<not> jeq (parseInt dtext) (trialDurationSec config)) \<longrightarrow>
       duration_effect config dtext = []"
    by (simp only: dur [of dtext]) simp
  from a b c d blank show ?thesis by blast
qed

theorem commit_effects_witness:
  "gain_effect True ''2.5'' (initial_state demo_config [] None)
     = ((initial_state demo_config [] None)\<lparr>yScale := Num (5 / 2)\<rparr>, [onGainChange (Num (5 / 2))])
   \<and> gain_effect True ''abc'' (initial_state demo_config [] None) = (initial_state demo_config [] None, [])
   \<and> duration_effect demo_config ''10'' = [onConfigChange (demo_config\<lparr>trialDurationSec := Num 10\<rparr>)]
   \<and> duration_effect demo_config long_digits = [onConfigChange (demo_config\<lparr>trialDurationSec := PosInf\<rparr>)]
   \<and> duration_effect demo_config ''0'' = []
   \<and> duration_effect demo_config ''abc'' = []
   \<and> gain_effect True '' '' (initial_state demo_config [] None) = (initial_state demo_config [] None, [])
   \<and> duration_effect demo_config [] = []"
proof -
  let ?s = "initial_state demo_config [] None"
  have dur: "trialDurationSec demo_config = Num 5"
    by (simp add: demo_config_def)
  have a: "gain_effect True ''2.5'' ?s = (?s\<lparr>yScale := Num (5 / 2)\<rparr>, [onGainChange (Num (5 / 2))])"
    using commit_effects [of "''2.5''" ?s True "[]" demo_config "[]"]
    by (simp add: parse_samples yScale_initial isNaN_def jeq_def)
  have b: "gain_effect True ''abc'' ?s = (?s, [])"
    using commit_effects [of "''abc''" ?s True "[]" demo_config "[]"]
    by (simp add: parse_samples isNaN_def)
  have ten: "(parseInt ''10'' = PosInf \<or> (\<exists>k::int. 0 < k \<and> parseInt ''10'' = Num (of_int k)))
      \<and> \<not> jeq (parseInt ''10'') (trialDurationSec demo_config)"
    by (simp add: parse_samples dur jeq_def)
  have c: "duration_effect demo_config ''10'' = [onConfigChange (demo_config\<lparr>trialDurationSec := Num 10\<rparr>)]"
    using commit_effects [of "[]" ?s True "''10''" demo_config "[]"] ten
    by (simp add: parse_samples)
  have long: "(parseInt long_digits = PosInf \<or> (\<exists>k::int. 0 < k \<and> parseInt long_digits = Num (of_int k)))
      \<and> \<not> jeq (parseInt long_digits) (trialDurationSec demo_config)"
    by (simp add: parseInt_long dur jeq_def)
  have d: "duration_effect demo_config long_digits = [onConfigChange (demo_config\<lparr>trialDurationSec := PosInf\<rparr>)]"
    using commit_effects [of "[]" ?s True long_digits demo_config "[]"] long
    by (simp add: parseInt_long)
  have zero: "\<not> ((parseInt ''0'' = PosInf \<or> (\<exists>k::int. 0 < k \<and> parseInt ''0'' = Num (of_int k)))
      \<and> \<not> jeq (parseInt ''0'') (trialDurationSec demo_config))"
    by (simp add: parse_samples)
  have e: "duration_effect demo_config ''0'' = []"
    using commit_effects [of "[]" ?s True "''0''" demo_config "[]"] zero by blast
  have none: "\<not> ((parseInt ''abc'' = PosInf \<or> (\<exists>k::int. 0 < k \<and> parseInt ''abc'' = Num (of_int k)))
      \<and> \<not> jeq (parseInt ''abc'') (trialDurationSec demo_config))"
    by (simp add: parse_samples)
  have f: "duration_effect demo_config ''abc'' = []"
    using commit_effects [of "[]" ?s True "''abc''" demo_config "[]"] none by blast
  have sp: "list_all is_js_space '' ''" "list_all is_js_space []"
    by (simp_all add: is_js_space_def)
  have g: "gain_effect True '' '' ?s = (?s, [])"
    using commit_effects [of "[]" ?s True "[]" demo_config "'' ''"] sp(1) by blast
  have h: "duration_effect demo_config [] = []"
    using commit_effects [of "[]" ?s True "[]" demo_config "[]"] sp(2) by blast
  from a b c d e f g h show ?thesis by (intro conjI)
qed

text \<open>
  The claim as stated fails in both directions. The text \<^verbatim>\<open>Infinity\<close> does not parse to
  a finite number and is committed as the gain; a text of 310 digits parses to
  \<^verbatim>\<open>Infinity\<close>, which is not a positive integer, and is committed as the trial duration.
  With the gain 1 in effect the text \<^verbatim>\<open>1\<close> parses to a finite number and is not
  committed, and with the duration 5 in effect the text \<^verbatim>\<open>5\<close> parses to a positive
  integer and is not committed: neither is propagated to the session.
\<close>

theorem commit_not_by_finiteness:
  "parseFloat ''Infinity'' = PosInf
   \<and> gain_effect True ''Infinity'' (initial_state demo_config [] None)
       = ((initial_state demo_config [] None)\<lparr>yScale := PosInf\<rparr>, [onGainChange PosInf])
   \<and> parseInt long_digits = PosInf
   \<and> duration_effect demo_config long_digits = [onConfigChange (demo_config\<lparr>trialDurationSec := PosInf\<rparr>)]
   \<and> parseFloat ''1'' = Num 1
   \<and> gain_effect True ''1'' (initial_state demo_config [] None) = (initial_state demo_config [] None, [])
   \<and> parseInt ''5'' = Num 5
   \<and> duration_effect demo_config ''5'' = []"
  by (simp add: parse_samples parseInt_long gain_effect_def duration_effect_def yScale_initial
      isNaN_def jeq_def jgt_def demo_config_def)

section \<open>The FFT on lengths that are powers of two\<close>

lemma length_evens_odds:
  "length (evens xs) = (length xs + 1) div 2 \<and> length (odds xs) = length xs div 2"
  by (induction xs rule: evens.induct) auto

lemma set_evens_odds: "set (evens xs) \<subseteq> set xs \<and> set (odds xs) \<subseteq> set xs"
  by (induction xs rule: evens.induct) auto

lemma half_indices_even: "half_indices (2 * m) = [0..<m]"
  unfolding half_indices_def
proof (rule sorted_distinct_set_unique)
  show "sorted (filter (\<lambda>k. 2 * k < 2 * m) [0..<2 * m])"
    by (rule sorted_wrt_filter) simp
  show "set (filter (\<lambda>k. 2 * k < 2 * m) [0..<2 * m]) = set [0..<m]"
    by auto
qed simp_all

lemma map_err_Inr:
  assumes "\<And>x. x \<in> set xs \<Longrightarrow> f x = Inr (g x)"
  shows "map_err f xs = Inr (map g xs)"
  using assms by (induction xs) auto

lemma map_err_ex:
  assumes "\<And>x. x \<in> set xs \<Longrightarrow> \<exists>y. f x = Inr y \<and> Q y"
  shows "\<exists>ys. map_err f xs = Inr ys \<and> length ys = length xs \<and> list_all Q ys"
  using assms
proof (induction xs)
  case Nil
  then show ?case by simp
next
  case (Cons x xs)
  from Cons.prems [of x] obtain y where y: "f x = Inr y" "Q y" by auto
  from Cons.IH Cons.prems obtain ys where ys: "map_err f xs = Inr ys" "length ys = length xs" "list_all Q ys"
    by auto
  from y ys show ?case by simp
qed

text \<open>
  A property of complex numbers that every step of the loop hands on from the entries it
  reads to the two entries it writes is handed on by the whole transform.
\<close>

lemma fft_combine_preserves:
  assumes bf: "\<And>k. k < m \<Longrightarrow> \<exists>p. butterfly (2 * m) es os k = Inr p \<and> P (fst p) \<and> P (snd p)"
  shows "\<exists>ys. fft_combine (2 * m) es os = Inr ys \<and> length ys = 2 * m \<and> list_all P ys"
proof -
  from map_err_ex [of "[0..<m]" "butterfly (2 * m) es os" "\<lambda>p. P (fst p) \<and> P (snd p)"] bf
  obtain ps where ps: "map_err (butterfly (2 * m) es os) [0..<m] = Inr ps" "length ps = m"
      "list_all (\<lambda>p. P (fst p) \<and> P (snd p)) ps"
    by auto
  then have "fft_combine (2 * m) es os = Inr (map fst ps @ map snd ps)"
    by (simp add: fft_combine_def half_indices_even)
  moreover have "list_all P (map fst ps @ map snd ps)"
    using ps(3) by (auto simp: list_all_iff)
  ultimately show ?thesis using ps(2) by simp
qed

lemma butterfly_in_range:
  "k < length es \<Longrightarrow> k < length os \<Longrightarrow>
     butterfly n es os k = Inr (butterfly_pair (twiddle k n) (es ! k) (os ! k))"
  by (simp add: butterfly_def read_elem_def)

lemma fft_pow2:
  assumes pres: "handed_on P"
  shows "length xs = 2 ^ j \<Longrightarrow> list_all P xs \<Longrightarrow>
      \<exists>ys. fft xs = Inr ys \<and> length ys = 2 ^ j \<and> list_all P ys"
proof (induction j arbitrary: xs)
  case 0
  then show ?case by (subst fft.simps) simp
next
  case (Suc j)
  have len: "length (evens xs) = 2 ^ j" "length (odds xs) = 2 ^ j"
    using Suc.prems(1) length_evens_odds [of xs] by simp_all
  have all: "list_all P (evens xs)" "list_all P (odds xs)"
    using Suc.prems(2) set_evens_odds [of xs] by (auto simp: list_all_iff)
  from Suc.IH [OF len(1) all(1)] obtain es where
    es: "fft (evens xs) = Inr es" "length es = 2 ^ j" "list_all P es" by blast
  from Suc.IH [OF len(2) all(2)] obtain os where
    os: "fft (odds xs) = Inr os" "length os = 2 ^ j" "list_all P os" by blast
  have "\<exists>p. butterfly (2 * 2 ^ j) es os k = Inr p \<and> P (fst p) \<and> P (snd p)" if "k < 2 ^ j" for k
  proof -
    have "P (es ! k)" "P (os ! k)"
      using that es(2,3) os(2,3) by (simp_all add: list_all_length)
    with pres have "P (fst (butterfly_pair (twiddle k (2 * 2 ^ j)) (es ! k) (os ! k)))
        \<and> P (snd (butterfly_pair (twiddle k (2 * 2 ^ j)) (es ! k) (os ! k)))"
      unfolding handed_on_def by simp
    with that es(2) os(2) show ?thesis
      by (simp add: butterfly_in_range)
  qed
  from fft_combine_preserves [of "2 ^ j" es os P, OF this]
  obtain ys where ys: "fft_combine (2 * 2 ^ j) es os = Inr ys" "length ys = 2 * 2 ^ j" "list_all P ys"
    by blast
  have "(0::nat) < 2 ^ j" by simp
  then have big: "\<not> length xs \<le> 1"
    unfolding Suc.prems(1) power_Suc by linarith
  have "fft xs = Inr ys"
    using big es(1) os(1) ys(1) Suc.prems(1) by (subst fft.simps) (simp add: Let_def)
  with ys show ?case by simp
qed

lemma is_finite_iff: "is_finite x \<longleftrightarrow> (\<exists>a. x = Num a)"
  by (cases x) simp_all

lemma twiddle_finite: "0 < n \<Longrightarrow> \<exists>a b. twiddle k n = \<lparr>real_c = Num a, imag_c = Num b\<rparr>"
  by (simp add: twiddle_def)

lemma butterfly_pair_zero:
  assumes "0 < n"
  shows "fst (butterfly_pair (twiddle k n) czero czero) = czero
       \<and> snd (butterfly_pair (twiddle k n) czero czero) = czero"
proof -
  from twiddle_finite [OF assms(1), of k] obtain a b where w: "twiddle k n = \<lparr>real_c = Num a, imag_c = Num b\<rparr>"
    by blast
  then show ?thesis
    by (simp add: butterfly_pair_def czero_def Let_def)
qed

lemma handed_on_zero: "handed_on (\<lambda>c. c = czero)"
  unfolding handed_on_def using butterfly_pair_zero by simp

lemma handed_on_any: "handed_on (\<lambda>c. True)"
  by (simp add: handed_on_def)

lemma fft_zero:
  assumes "length xs = 2 ^ j" "list_all (\<lambda>c. c = czero) xs"
  shows "\<exists>ys. fft xs = Inr ys \<and> length ys = 2 ^ j \<and> list_all (\<lambda>c. c = czero) ys"
  using fft_pow2 [OF handed_on_zero assms] .

lemma fft_length:
  assumes "length xs = 2 ^ j"
  shows "\<exists>ys. fft xs = Inr ys \<and> length ys = 2 ^ j"
  using fft_pow2 [OF handed_on_any assms] by (simp add: list_all_iff)

section \<open>The padded length\<close>

lemma new_array_nat [simp]: "new_array (Num (real n)) = Inr n"
  by (simp add: new_array_def)

lemma padded_length_pow2_of: "padded_length n = Num (real (pow2_of n))"
proof (cases "n = 0")
  case True
  then show ?thesis by (simp add: padded_length_def pow2_of_def)
next
  case False
  then have "1 \<le> real n" by simp
  then have "0 \<le> log 2 (real n)" by simp
  then have nonneg: "0 \<le> \<lceil>log 2 (real n)\<rceil>" by simp
  have "2 powr real_of_int \<lceil>log 2 (real n)\<rceil> = 2 ^ nat \<lceil>log 2 (real n)\<rceil>"
    using nonneg by (simp add: powr_real_of_int)
  with False show ?thesis
    by (simp add: padded_length_def pow2_of_def)
qed

lemma pow2_of_ge: "n \<le> pow2_of n"
proof (cases "n = 0")
  case True
  then show ?thesis by simp
next
  case False
  then have pos: "0 < real n" by simp
  have "real n = 2 powr log 2 (real n)"
    using pos by simp
  also have "\<dots> \<le> 2 powr real_of_int \<lceil>log 2 (real n)\<rceil>"
    by (rule powr_mono) simp_all
  also have "\<dots> = real (2 ^ nat \<lceil>log 2 (real n)\<rceil>)"
  proof -
    have "1 \<le> real n" using False by simp
    then have "0 \<le> log 2 (real n)" by simp
    then have "0 \<le> \<lceil>log 2 (real n)\<rceil>" by simp
    then show ?thesis by (simp add: powr_real_of_int)
  qed
  finally have "real n \<le> real (2 ^ nat \<lceil>log 2 (real n)\<rceil>)" .
  then show ?thesis
    using False by (simp add: pow2_of_def del: of_nat_power)
qed

lemma pow2_of_power: "0 < n \<Longrightarrow> \<exists>j. pow2_of n = 2 ^ j"
  by (auto simp: pow2_of_def)

lemma pow2_of_ge_two: "2 \<le> n \<Longrightarrow> \<exists>j. pow2_of n = 2 * 2 ^ j"
proof -
  assume n: "2 \<le> n"
  then obtain j where j: "pow2_of n = 2 ^ j" using pow2_of_power [of n] by auto
  have "2 \<le> pow2_of n" using n pow2_of_ge [of n] by simp
  with j have "j \<noteq> 0" by (cases j) auto
  then obtain i where "j = Suc i" by (cases j) auto
  with j show ?thesis by auto
qed

section \<open>One window\<close>

lemma num_at_nat: "num_at xs (Num (real k)) = (if k < length xs then xs ! k else NaN)"
  by (simp add: num_at_def)

lemma window_chunk_in_range:
  assumes "i + length hw \<le> length signal"
  shows "window_chunk signal hw (Num (real i)) = map2 jmul (take (length hw) (drop i signal)) hw"
proof (rule nth_equalityI)
  show "length (window_chunk signal hw (Num (real i)))
      = length (map2 jmul (take (length hw) (drop i signal)) hw)"
    using assms by (simp add: window_chunk_def)
next
  fix j assume "j < length (window_chunk signal hw (Num (real i)))"
  then have j: "j < length hw" by (simp add: window_chunk_def)
  then have ij: "i + j < length signal" using assms by simp
  have "num_at signal (jadd (Num (real i)) (Num (real j))) = signal ! (i + j)"
    using ij num_at_nat [of signal "i + j"] by simp
  then have "window_chunk signal hw (Num (real i)) ! j = jmul (signal ! (i + j)) (hw ! j)"
    using j by (simp add: window_chunk_def num_at_nat)
  moreover have "map2 jmul (take (length hw) (drop i signal)) hw ! j = jmul (signal ! (i + j)) (hw ! j)"
    using j ij assms by simp
  ultimately show "window_chunk signal hw (Num (real i)) ! j
      = map2 jmul (take (length hw) (drop i signal)) hw ! j"
    by simp
qed

lemma length_window_chunk [simp]: "length (window_chunk signal hw i) = length hw"
  by (simp add: window_chunk_def)

text \<open>The array \<^verbatim>\<open>complexSignal\<close> is the chunk padded with zeros.\<close>

lemma complexSignal_padded:
  assumes "length chunk \<le> p"
  shows "map (\<lambda>i. \<lparr>real_c = (if i < length chunk then chunk ! i else Num 0), imag_c = Num 0\<rparr>) [0..<p]
       = map (\<lambda>x. \<lparr>real_c = x, imag_c = Num 0\<rparr>) (chunk @ replicate (p - length chunk) (Num 0))"
proof (rule nth_equalityI)
  show "length (map (\<lambda>i. \<lparr>real_c = (if i < length chunk then chunk ! i else Num 0), imag_c = Num 0\<rparr>) [0..<p])
      = length (map (\<lambda>x. \<lparr>real_c = x, imag_c = Num 0\<rparr>) (chunk @ replicate (p - length chunk) (Num 0)))"
    using assms by simp
next
  fix i
  assume "i < length (map (\<lambda>i. \<lparr>real_c = (if i < length chunk then chunk ! i else Num 0), imag_c = Num 0\<rparr>) [0..<p])"
  then have "i < p" by simp
  then show "map (\<lambda>i. \<lparr>real_c = (if i < length chunk then chunk ! i else Num 0), imag_c = Num 0\<rparr>) [0..<p] ! i
      = map (\<lambda>x. \<lparr>real_c = x, imag_c = Num 0\<rparr>) (chunk @ replicate (p - length chunk) (Num 0)) ! i"
    using assms by (simp add: nth_append)
qed

lemma magnitudes_of_spectrum:
  assumes "length spectrum = 2 * m"
  shows "map_err (\<lambda>i. case read_elem spectrum i of Inl e \<Rightarrow> Inl e | Inr c \<Rightarrow> Inr (magnitude c))
           (half_indices (2 * m))
       = Inr (map magnitude (take m spectrum))"
proof -
  have "map_err (\<lambda>i. case read_elem spectrum i of Inl e \<Rightarrow> Inl e | Inr c \<Rightarrow> Inr (magnitude c)) [0..<m]
      = Inr (map (\<lambda>i. magnitude (spectrum ! i)) [0..<m])"
    using assms by (intro map_err_Inr) (simp add: read_elem_def)
  moreover have "map (\<lambda>i. magnitude (spectrum ! i)) [0..<m] = map magnitude (take m spectrum)"
    using assms by (intro nth_equalityI) simp_all
  ultimately show ?thesis by (simp add: half_indices_even)
qed

lemma computeMagnitude_window:
  assumes pres: "handed_on P"
    and len: "2 \<le> length chunk"
    and all: "list_all P (map (\<lambda>x. \<lparr>real_c = x, imag_c = Num 0\<rparr>)
                 (chunk @ replicate (pow2_of (length chunk) - length chunk) (Num 0)))"
  shows "\<exists>spectrum.
       fft (map (\<lambda>x. \<lparr>real_c = x, imag_c = Num 0\<rparr>)
              (chunk @ replicate (pow2_of (length chunk) - length chunk) (Num 0))) = Inr spectrum
     \<and> length spectrum = pow2_of (length chunk)
     \<and> list_all P spectrum
     \<and> computeMagnitude chunk = Inr (map magnitude (take (length spectrum div 2) spectrum))"
proof -
  let ?p = "pow2_of (length chunk)"
  let ?padded = "map (\<lambda>x. \<lparr>real_c = x, imag_c = Num 0\<rparr>) (chunk @ replicate (?p - length chunk) (Num 0))"
  from pow2_of_ge_two [OF len] obtain j where j: "?p = 2 * 2 ^ j" by blast
  have lp: "length ?padded = 2 ^ Suc j"
    using pow2_of_ge [of "length chunk"] j by simp
  from fft_pow2 [OF pres lp all]
  obtain spectrum where sp: "fft ?padded = Inr spectrum" "length spectrum = 2 ^ Suc j" "list_all P spectrum"
    by blast
  have cs: "map (\<lambda>i. \<lparr>real_c = (if i < length chunk then chunk ! i else Num 0), imag_c = Num 0\<rparr>) [0..<?p]
      = ?padded"
    by (rule complexSignal_padded) (rule pow2_of_ge)
  have "computeMagnitude chunk
      = map_err (\<lambda>i. case read_elem spectrum i of Inl e \<Rightarrow> Inl e | Inr c \<Rightarrow> Inr (magnitude c))
          (half_indices ?p)"
    by (simp only: computeMagnitude_def padded_length_pow2_of new_array_nat sum.case Let_def cs sp(1))
  also have "\<dots> = Inr (map magnitude (take (2 ^ j) spectrum))"
    using magnitudes_of_spectrum [of spectrum "2 ^ j"] sp(2) j by simp
  finally have "computeMagnitude chunk = Inr (map magnitude (take (length spectrum div 2) spectrum))"
    using sp(2) by simp
  with sp j show ?thesis by simp
qed

section \<open>Rows, and the running maximum and minimum\<close>

lemma jmul_commute: "jmul x y = jmul y x"
  by (cases x; cases y) (simp_all add: mult.commute)

lemma pseudo_db_zero: "pseudo_db (Num 0) = Num (- 120)"
proof -
  have "log 10 (10 ^ 6) = real 6"
    by (rule log_pow_cancel) simp_all
  then have "log 10 (1 / 10 ^ 6) = - 6"
    by (simp add: log_divide)
  then show ?thesis by (simp add: pseudo_db_def)
qed

lemma spec_row_eq: "map pseudo_db (map magnitude (take (length sp div 2) sp)) = spec_row_of_spectrum sp"
  by (simp add: spec_row_of_spectrum_def pseudo_db_def magnitude_def jsquare_def jmul_commute [of "Num 20"])

text \<open>
  The comparisons order the numbers that are not \<^verbatim>\<open>NaN\<close>, the two infinities included.
\<close>

lemma jle_refl: "\<not> isNaN x \<Longrightarrow> jle x x"
  by (cases x) (simp_all add: jle_def jeq_def isNaN_def)

lemma jle_trans: "jle x y \<Longrightarrow> jle y z \<Longrightarrow> jle x z"
  by (cases x; cases y; cases z) (auto simp: jle_def jeq_def)

lemma jlt_jle: "jlt x y \<Longrightarrow> jle x y"
  by (simp add: jle_def)

lemma not_jlt_jle: "\<not> isNaN x \<Longrightarrow> \<not> isNaN y \<Longrightarrow> \<not> jlt x y \<Longrightarrow> jle y x"
  by (cases x; cases y) (auto simp: jle_def jeq_def isNaN_def)

text \<open>
  One turn of \<^verbatim>\<open>if (val > maxMag) maxMag = val; if (val < minMag) minMag = val;\<close> on a
  value that is not \<^verbatim>\<open>NaN\<close>.
\<close>

lemma extremes_step:
  assumes ext: "extremes seen mx mn" and seen: "list_all (\<lambda>x. \<not> isNaN x) seen" and v: "\<not> isNaN v"
  shows "extremes (seen @ [v]) (if jgt v mx then v else mx) (if jlt v mn then v else mn)"
proof (cases "seen = []")
  case True
  with ext have "mx = NegInf" "mn = PosInf" by (simp_all add: extremes_def)
  with v show ?thesis
    by (cases v) (simp_all add: True extremes_def jgt_def jle_def jeq_def isNaN_def)
next
  case False
  let ?mx = "if jgt v mx then v else mx"
  let ?mn = "if jlt v mn then v else mn"
  from ext False have in_seen: "mx \<in> set seen" "mn \<in> set seen"
    and bounds: "\<And>x. x \<in> set seen \<Longrightarrow> jle x mx \<and> jle mn x"
    by (auto simp: extremes_def list_all_iff)
  from in_seen seen have nn: "\<not> isNaN mx" "\<not> isNaN mn"
    by (auto simp: list_all_iff)
  have mx_in: "?mx \<in> set (seen @ [v])" and mn_in: "?mn \<in> set (seen @ [v])"
    using in_seen by simp_all
  have upper: "jle x ?mx" if x: "x \<in> set (seen @ [v])" for x
  proof (cases "jgt v mx")
    case True
    then have "jle mx v" by (simp add: jgt_def jlt_jle)
    with bounds x v True show ?thesis
      by (auto intro: jle_trans jle_refl)
  next
    case False
    then have "jle v mx" using nn(1) v by (simp add: jgt_def not_jlt_jle)
    with bounds x False show ?thesis by auto
  qed
  have lower: "jle ?mn x" if x: "x \<in> set (seen @ [v])" for x
  proof (cases "jlt v mn")
    case True
    then have "jle v mn" by (rule jlt_jle)
    with bounds x v True show ?thesis
      by (auto intro: jle_trans jle_refl)
  next
    case False
    then have "jle mn v" using nn(2) v by (simp add: not_jlt_jle)
    with bounds x False show ?thesis by auto
  qed
  have "seen @ [v] \<noteq> []" by simp
  with mx_in mn_in upper lower show ?thesis
    unfolding extremes_def by (simp only: if_False list_all_iff) blast
qed

lemma log_mags_extremes:
  "log_mags ms mx mn = (vals, mx', mn') \<Longrightarrow>
     vals = map pseudo_db ms
     \<and> (list_all (\<lambda>x. \<not> isNaN x) seen \<and> list_all (\<lambda>x. \<not> isNaN x) (map pseudo_db ms)
          \<and> extremes seen mx mn
          \<longrightarrow> extremes (seen @ vals) mx' mn')"
proof (induction ms arbitrary: mx mn vals seen mx' mn')
  case Nil
  then show ?case by simp
next
  case (Cons m ms)
  let ?val = "pseudo_db m"
  let ?mx = "if jgt ?val mx then ?val else mx"
  let ?mn = "if jlt ?val mn then ?val else mn"
  obtain vs a b where rest: "log_mags ms ?mx ?mn = (vs, a, b)"
    by (cases "log_mags ms ?mx ?mn") auto
  with Cons.prems have res: "vals = ?val # vs" "mx' = a" "mn' = b"
    by (simp_all add: Let_def)
  note IH = Cons.IH [OF rest, of "seen @ [?val]"]
  have "extremes (seen @ vals) mx' mn'"
    if h: "list_all (\<lambda>x. \<not> isNaN x) seen" "list_all (\<lambda>x. \<not> isNaN x) (map pseudo_db (m # ms))"
      "extremes seen mx mn"
  proof -
    from h(2) have v: "\<not> isNaN ?val" by simp
    have "extremes (seen @ [?val]) ?mx ?mn"
      by (rule extremes_step [OF h(3) h(1) v])
    moreover have "list_all (\<lambda>x. \<not> isNaN x) (seen @ [?val])"
      "list_all (\<lambda>x. \<not> isNaN x) (map pseudo_db ms)"
      using h(1,2) by simp_all
    ultimately have "extremes ((seen @ [?val]) @ vs) a b"
      using IH by blast
    then show ?thesis by (simp add: res)
  qed
  with IH res show ?case by simp
qed

section \<open>The sliding-window loop\<close>

text \<open>The number of windows; none when the signal is shorter than the window.\<close>

lemma loop_guard:
  "jle (Num (real i)) (jsub (Num (real n)) (Num (real w))) = (i + w \<le> n)"
proof -
  have "(real i \<le> real n - real w) = (real i + real w \<le> real n)" by auto
  also have "\<dots> = (i + w \<le> n)" by (simp only: of_nat_add [symmetric] of_nat_le_iff)
  finally show ?thesis by simp
qed

lemma stft_loop_fold:
  assumes s: "0 < s" and R: "R = (if w \<le> length signal then (length signal - w) div s + 1 else 0)"
  shows "r \<le> R \<Longrightarrow>
     stft_loop signal hw (Num (real w)) (Num (real s)) (Num (real (r * s))) st
       = Some (stft_fold signal hw (map (\<lambda>r. r * s) [r..<R]) st)"
proof (induction "R - r" arbitrary: r st)
  case 0
  then have r: "r = R" by simp
  have "\<not> r * s + w \<le> length signal"
  proof (cases "w \<le> length signal")
    case True
    then have "length signal - w < r * s"
      using s r R by (metis Suc_eq_plus1 dividend_less_div_times mult.commute add.commute mult_Suc)
    with True show ?thesis by simp
  next
    case False
    then show ?thesis by simp
  qed
  then have ng: "\<not> jle (Num (real (r * s))) (jsub (Num (real (length signal))) (Num (real w)))"
    by (simp only: loop_guard not_False_eq_True)
  show ?case
    apply (subst stft_loop.simps)
    apply (simp only: ng if_False)
    apply (simp add: r)
    done
next
  case (Suc m)
  then have r: "r < R" by simp
  with R have w: "w \<le> length signal" and rd: "r \<le> (length signal - w) div s"
    by (simp_all split: if_splits)
  from rd s have "r * s \<le> length signal - w"
    by (metis less_eq_div_iff_mult_less_eq)
  with w have "r * s + w \<le> length signal" by simp
  then have guard: "jle (Num (real (r * s))) (jsub (Num (real (length signal))) (Num (real w)))"
    by (simp only: loop_guard)
  have next_i: "jadd (Num (real (r * s))) (Num (real s)) = Num (real (Suc r * s))"
    by (simp add: algebra_simps)
  have IH: "stft_loop signal hw (Num (real w)) (Num (real s)) (Num (real (Suc r * s))) st'
      = Some (stft_fold signal hw (map (\<lambda>r. r * s) [Suc r..<R]) st')" for st'
    using Suc.hyps(1) [of "Suc r" st'] Suc.hyps(2) r by simp
  have upt: "[r..<R] = r # [Suc r..<R]"
    using r by (simp add: upt_conv_Cons)
  show ?case
    apply (subst stft_loop.simps)
    apply (simp only: guard if_True next_i IH upt list.map stft_fold.simps)
    apply (simp split: sum.splits prod.splits)
    done
qed

section \<open>The rows of the grid\<close>


lemma stft_fold_rows:
  assumes pres: "handed_on P"
    and w: "2 \<le> length hw"
  shows "(\<And>i. i \<in> set starts \<Longrightarrow> i + length hw \<le> length signal \<and> list_all P (padded_chunk signal hw i))
    \<Longrightarrow> \<exists>rows mx' mn'.
        stft_fold signal hw starts (res, mx, mn) = Inr (res @ rows, mx', mn')
      \<and> list_all2 (\<lambda>i row. \<exists>spectrum. fft (padded_chunk signal hw i) = Inr spectrum
                        \<and> length spectrum = pow2_of (length hw) \<and> list_all P spectrum
                        \<and> row = spec_row_of_spectrum spectrum) starts rows
      \<and> (list_all (\<lambda>x. \<not> isNaN x) (concat res) \<and> list_all (\<lambda>x. \<not> isNaN x) (concat rows) \<and> extremes (concat res) mx mn
            \<longrightarrow> extremes (concat (res @ rows)) mx' mn')"
proof (induction starts arbitrary: res mx mn)
  case Nil
  then show ?case by simp
next
  case (Cons i starts)
  let ?chunk = "window_chunk signal hw (Num (real i))"
  from Cons.prems [of i] have i: "i + length hw \<le> length signal" and Pi: "list_all P (padded_chunk signal hw i)"
    by simp_all
  have chunk: "?chunk = map2 jmul (take (length hw) (drop i signal)) hw"
    by (rule window_chunk_in_range [OF i])
  have lc: "length ?chunk = length hw" by simp
  have pc: "map (\<lambda>x. \<lparr>real_c = x, imag_c = Num 0\<rparr>)
        (?chunk @ replicate (pow2_of (length hw) - length hw) (Num 0)) = padded_chunk signal hw i"
    by (simp only: chunk padded_chunk_def)
  have len2: "2 \<le> length ?chunk" using w by simp
  have allc: "list_all P (map (\<lambda>x. \<lparr>real_c = x, imag_c = Num 0\<rparr>)
        (?chunk @ replicate (pow2_of (length ?chunk) - length ?chunk) (Num 0)))"
    unfolding lc pc by (rule Pi)
  from computeMagnitude_window [OF pres len2 allc]
  obtain spectrum where sp: "fft (padded_chunk signal hw i) = Inr spectrum"
      "length spectrum = pow2_of (length hw)" "list_all P spectrum"
      "computeMagnitude ?chunk = Inr (map magnitude (take (length spectrum div 2) spectrum))"
    unfolding lc pc by blast
  let ?mags = "map magnitude (take (length spectrum div 2) spectrum)"
  obtain vals mx1 mn1 where lm: "log_mags ?mags mx mn = (vals, mx1, mn1)"
    by (cases "log_mags ?mags mx mn") auto
  note lme = log_mags_extremes [OF lm, of "concat res"]
  from lme have v0: "vals = map pseudo_db ?mags"
    by (rule conjunct1)
  from lme have ext1: "list_all (\<lambda>x. \<not> isNaN x) (concat res) \<and> list_all (\<lambda>x. \<not> isNaN x) vals \<and> extremes (concat res) mx mn
          \<longrightarrow> extremes (concat res @ vals) mx1 mn1"
    unfolding v0 [symmetric] by (rule conjunct2)
  have vals: "vals = spec_row_of_spectrum spectrum"
    by (simp only: v0 spec_row_eq)
  from Cons.IH [of "res @ [vals]" mx1 mn1] Cons.prems
  obtain rows mx' mn' where rest:
      "stft_fold signal hw starts (res @ [vals], mx1, mn1) = Inr ((res @ [vals]) @ rows, mx', mn')"
      "list_all2 (\<lambda>i row. \<exists>spectrum. fft (padded_chunk signal hw i) = Inr spectrum
                        \<and> length spectrum = pow2_of (length hw) \<and> list_all P spectrum
                        \<and> row = spec_row_of_spectrum spectrum) starts rows"
      "list_all (\<lambda>x. \<not> isNaN x) (concat (res @ [vals])) \<and> list_all (\<lambda>x. \<not> isNaN x) (concat rows)
          \<and> extremes (concat (res @ [vals])) mx1 mn1
            \<longrightarrow> extremes (concat ((res @ [vals]) @ rows)) mx' mn'"
    by (auto simp del: concat_append append_assoc)
  have run: "stft_fold signal hw (i # starts) (res, mx, mn) = Inr (res @ (vals # rows), mx', mn')"
    using sp(4) lm rest(1) by simp
  have rel: "list_all2 (\<lambda>i row. \<exists>spectrum. fft (padded_chunk signal hw i) = Inr spectrum
                        \<and> length spectrum = pow2_of (length hw) \<and> list_all P spectrum
                        \<and> row = spec_row_of_spectrum spectrum) (i # starts) (vals # rows)"
    using sp(1-3) vals rest(2) by auto
  have ext: "extremes (concat (res @ (vals # rows))) mx' mn'"
    if "list_all (\<lambda>x. \<not> isNaN x) (concat res)" "list_all (\<lambda>x. \<not> isNaN x) (concat (vals # rows))"
       "extremes (concat res) mx mn"
    using that ext1 rest(3) by simp
  from run rel ext show ?case by blast
qed

section \<open>The whole engine\<close>

lemma hanningWindow_nat: "hanningWindow (Num (real w)) = Inr (hann_coefficients w)"
  by (simp add: hanningWindow_def hann_coefficients_def)

lemma length_hann [simp]: "length (hann_coefficients w) = w"
  by (simp add: hann_coefficients_def)

lemma hann_finite: "2 \<le> w \<Longrightarrow> list_all is_finite (hann_coefficients w)"
  by (simp add: hann_coefficients_def hann_coeff_def list_all_iff)

lemma step_nat: "ov < int w \<Longrightarrow> jsub (Num (real w)) (Num (of_int ov)) = Num (real (nat (int w - ov)))"
  by simp

text \<open>
  For natural numbers \<open>w\<close> and an integer overlap below \<open>w\<close> the engine is the recursion
  over the window starts \<open>0, s, 2 s, ...\<close>, and it returns.
\<close>

lemma computeSpectrogram_fold:
  assumes ov: "ov < int w"
    and s: "s = nat (int w - ov)"
    and R: "R = (if w \<le> length signal then (length signal - w) div s + 1 else 0)"
  shows "computeSpectrogram signal rate (Num (real w)) (Num (of_int ov))
       = (case stft_fold signal (hann_coefficients w) (map (\<lambda>r. r * s) [0..<R]) ([], NegInf, PosInf) of
            Inl e \<Rightarrow> Some (Inl e)
          | Inr (result, mx, mn) \<Rightarrow>
              Some (Inr \<lparr>magnitudes = result,
                         freqs = map (\<lambda>i. jdiv (jmul (Num (real i)) rate) (Num (real w)))
                                   [0..<to_length (jdiv (Num (real w)) (Num 2))],
                         times = map (\<lambda>i. jdiv (jmul (Num (real i)) (Num (real s))) rate) [0..<length result],
                         maxMag = mx, minMag = mn\<rparr>))"
proof -
  let ?fold = "stft_fold signal (hann_coefficients w) (map (\<lambda>r. r * s) [0..<R]) ([], NegInf, PosInf)"
  have pos: "0 < s" using ov s by simp
  have st: "jsub (Num (real w)) (Num (of_int ov)) = Num (real s)"
    unfolding s by (rule step_nat [OF ov])
  have z: "Num (real (0 * s)) = Num 0" by simp
  have loop: "stft_loop signal (hann_coefficients w) (Num (real w)) (Num (real s)) (Num 0) ([], NegInf, PosInf)
      = Some ?fold"
    using stft_loop_fold [OF pos R, of 0 "hann_coefficients w" "([], NegInf, PosInf)"]
    unfolding z by blast
  show ?thesis
  proof (cases ?fold)
    case (Inl e)
    show ?thesis
      unfolding computeSpectrogram_def Let_def st hanningWindow_nat
      by (simp only: sum.case loop option.case Inl)
  next
    case (Inr t)
    obtain result mx mn where t: "t = (result, mx, mn)" by (cases t) auto
    show ?thesis
      unfolding computeSpectrogram_def Let_def st hanningWindow_nat
      by (simp only: sum.case loop option.case Inr t prod.case)
  qed
qed

text \<open>
  The run of the engine for a window of at least two samples: every window is transformed
  without a fault, and a property that the transform hands on holds of every spectrum.
\<close>

lemma spectrogram_run:
  assumes pres: "handed_on P" and w: "2 \<le> w" and ov: "ov < int w"
    and s: "s = nat (int w - ov)"
    and R: "R = (if w \<le> length signal then (length signal - w) div s + 1 else 0)"
    and allP: "\<And>r. r < R \<Longrightarrow> list_all P (padded_chunk signal (hann_coefficients w) (r * s))"
  shows "\<exists>d. computeSpectrogram signal rate (Num (real w)) (Num (of_int ov)) = Some (Inr d)
     \<and> length (magnitudes d) = R
     \<and> (\<forall>r<R. \<exists>spectrum. fft (padded_chunk signal (hann_coefficients w) (r * s)) = Inr spectrum
                \<and> length spectrum = pow2_of w \<and> list_all P spectrum
                \<and> magnitudes d ! r = spec_row_of_spectrum spectrum)
     \<and> (list_all (\<lambda>x. \<not> isNaN x) (concat (magnitudes d))
          \<longrightarrow> extremes (concat (magnitudes d)) (maxMag d) (minMag d))"
proof -
  let ?hw = "hann_coefficients w"
  let ?starts = "map (\<lambda>r. r * s) [0..<R]"
  have pos: "0 < s" unfolding s using ov by simp
  have in_range: "i + length ?hw \<le> length signal \<and> list_all P (padded_chunk signal ?hw i)"
    if "i \<in> set ?starts" for i
  proof -
    from that obtain r where r: "r < R" "i = r * s" by auto
    with R have wn: "w \<le> length signal" and rd: "r \<le> (length signal - w) div s"
      by (simp_all split: if_splits)
    from rd pos have "r * s \<le> length signal - w"
      by (metis less_eq_div_iff_mult_less_eq)
    with wn r allP [OF r(1)] show ?thesis by simp
  qed
  have w': "2 \<le> length ?hw" using w by simp
  from stft_fold_rows [OF pres w', of ?starts signal "[]" NegInf PosInf] in_range
  obtain rows mx' mn' where run: "stft_fold signal ?hw ?starts ([], NegInf, PosInf) = Inr ([] @ rows, mx', mn')"
    and rel: "list_all2 (\<lambda>i row. \<exists>spectrum. fft (padded_chunk signal ?hw i) = Inr spectrum
                        \<and> length spectrum = pow2_of (length ?hw) \<and> list_all P spectrum
                        \<and> row = spec_row_of_spectrum spectrum) ?starts rows"
    and ext: "list_all (\<lambda>x. \<not> isNaN x) (concat []) \<and> list_all (\<lambda>x. \<not> isNaN x) (concat rows) \<and> extremes (concat []) NegInf PosInf
            \<longrightarrow> extremes (concat ([] @ rows)) mx' mn'"
    by blast
  define d where "d = \<lparr>magnitudes = rows,
       freqs = map (\<lambda>i. jdiv (jmul (Num (real i)) rate) (Num (real w))) [0..<to_length (jdiv (Num (real w)) (Num 2))],
       times = map (\<lambda>i. jdiv (jmul (Num (real i)) (Num (real s))) rate) [0..<length rows],
       maxMag = mx', minMag = mn'\<rparr>"
  have res: "computeSpectrogram signal rate (Num (real w)) (Num (of_int ov)) = Some (Inr d)"
    using run by (simp add: computeSpectrogram_fold [OF ov s R] d_def)
  have len: "length rows = R"
    using list_all2_lengthD [OF rel] by simp
  have content: "\<exists>spectrum. fft (padded_chunk signal ?hw (r * s)) = Inr spectrum
                \<and> length spectrum = pow2_of w \<and> list_all P spectrum
                \<and> rows ! r = spec_row_of_spectrum spectrum" if "r < R" for r
    using list_all2_nthD [OF rel, of r] that by simp
  have extremes_final: "extremes (concat rows) mx' mn'" if "list_all (\<lambda>x. \<not> isNaN x) (concat rows)"
    using ext that by (simp add: extremes_def)
  from res len content extremes_final show ?thesis
    by (intro exI [of _ d]) (simp add: d_def)
qed

section \<open>Zero signals\<close>

lemma padded_chunk_zero:
  assumes "all_zero signal" "list_all is_finite hw"
  shows "list_all (\<lambda>c. c = czero) (padded_chunk signal hw i)"
proof -
  have "jmul a b = Num 0" if "(a, b) \<in> set (zip (take (length hw) (drop i signal)) hw)" for a b
  proof -
    from that have "a \<in> set (take (length hw) (drop i signal))" by (rule set_zip_leftD)
    then have "a \<in> set signal" by (blast dest: in_set_takeD in_set_dropD)
    moreover from that have "b \<in> set hw" by (rule set_zip_rightD)
    ultimately have "a \<in> set signal" "b \<in> set hw" by blast+
    with assms obtain h where "a = Num 0" "b = Num h"
      by (auto simp: list_all_iff all_zero_def is_finite_iff)
    then show ?thesis by simp
  qed
  then show ?thesis
    by (auto simp: padded_chunk_def list_all_iff czero_def)
qed

lemma spec_row_length: "length (spec_row_of_spectrum sp) = length sp div 2"
  by (simp add: spec_row_of_spectrum_def)

lemma spec_row_zero:
  assumes "list_all (\<lambda>c. c = czero) sp"
  shows "list_all (\<lambda>x. x = jmul (Num 20) (jlog 10 (Num (1 / 10 ^ 6)))) (spec_row_of_spectrum sp)"
  unfolding spec_row_of_spectrum_def list_all_iff
proof (intro ballI)
  let ?f = "\<lambda>c. jmul (Num 20) (jlog 10 (jadd (jsqrt (jadd (jmul (real_c c) (real_c c))
                                                       (jmul (imag_c c) (imag_c c))))
                                          (Num (1 / 10 ^ 6))))"
  fix x assume "x \<in> set (map ?f (take (length sp div 2) sp))"
  then obtain c where c: "c \<in> set (take (length sp div 2) sp)" "x = ?f c" by auto
  from c(1) assms have "c = czero" by (auto simp: list_all_iff dest: in_set_takeD)
  with c(2) show "x = jmul (Num 20) (jlog 10 (Num (1 / 10 ^ 6)))"
    by (simp add: czero_def)
qed

lemma floor_value: "jmul (Num 20) (jlog 10 (Num (1 / 10 ^ 6))) = Num (- 120)"
  using pseudo_db_zero by (simp add: pseudo_db_def jmul_commute [of "Num 20"])

text \<open>The padded length is the least power of two that is not below the window size.\<close>

lemma pow2_of_least:
  assumes "0 < n"
  shows "(\<exists>j. pow2_of n = 2 ^ j) \<and> n \<le> pow2_of n \<and> (\<forall>j. n \<le> 2 ^ j \<longrightarrow> pow2_of n \<le> 2 ^ j)"
proof -
  have "pow2_of n \<le> 2 ^ j" if "n \<le> 2 ^ j" for j
  proof -
    from that have "real n \<le> 2 ^ j"
      by (metis of_nat_le_iff of_nat_numeral of_nat_power)
    then have "log 2 (real n) \<le> real j"
      using assms by (subst log_le_iff) (simp_all add: powr_realpow)
    then have "nat \<lceil>log 2 (real n)\<rceil> \<le> j" by simp
    then have "(2::nat) ^ nat \<lceil>log 2 (real n)\<rceil> \<le> 2 ^ j"
      by (rule power_increasing) simp
    with assms show ?thesis by (simp add: pow2_of_def)
  qed
  with pow2_of_power [OF assms] pow2_of_ge [of n] show ?thesis by blast
qed

section \<open>Runs of the engine on small inputs\<close>

text \<open>One turn of the loop, and its end.\<close>

lemma stft_loop_stop:
  "\<not> jle i (jsub (Num (real (length signal))) ws) \<Longrightarrow> stft_loop signal hw ws step i st = Some (Inr st)"
  by (subst stft_loop.simps) simp

lemma stft_loop_step:
  "jle i (jsub (Num (real (length signal))) ws) \<Longrightarrow> computeMagnitude (window_chunk signal hw i) = Inr mags
   \<Longrightarrow> log_mags mags mx mn = (row, mx', mn')
   \<Longrightarrow> stft_loop signal hw ws step i (result, mx, mn)
       = stft_loop signal hw ws step (jadd i step) (result @ [row], mx', mn')"
  by (subst stft_loop.simps) simp

lemma hann_one: "hanningWindow (Num 1) = Inr [NaN]"
  by (simp add: hanningWindow_def new_array_def hann_coeff_def signed_inf_def jsub_def)

lemma hann_two: "hanningWindow (Num 2) = Inr [Num 0, Num 0]"
  by (simp add: hanningWindow_def new_array_def hann_coeff_def upt_conv_Cons)

lemma fft_single: "fft [c] = Inr [c]"
  by (simp add: fft.simps)

lemma magnitude_one_nan: "computeMagnitude [NaN] = Inr [NaN]"
  by (simp add: computeMagnitude_def padded_length_def new_array_def fft_single half_indices_def
      read_elem_def magnitude_def jsquare_def)

lemma chunk_one: "window_chunk [Num a] [NaN] (Num 0) = [NaN]"
  by (simp add: window_chunk_def num_at_def)

lemma log_mags_nan: "log_mags [NaN] NegInf PosInf = ([NaN], NegInf, PosInf)"
  by (simp add: pseudo_db_def jgt_def)

lemma loop_one:
  "stft_loop [Num a] [NaN] (Num 1) (Num 1) (Num 0) ([], NegInf, PosInf) = Some (Inr ([[NaN]], NegInf, PosInf))"
proof -
  have "stft_loop [Num a] [NaN] (Num 1) (Num 1) (Num 0) ([], NegInf, PosInf)
      = stft_loop [Num a] [NaN] (Num 1) (Num 1) (jadd (Num 0) (Num 1)) ([] @ [[NaN]], NegInf, PosInf)"
    by (rule stft_loop_step [OF _ _ log_mags_nan]) (simp_all add: chunk_one magnitude_one_nan)
  also have "\<dots> = Some (Inr ([[NaN]], NegInf, PosInf))"
    by (simp add: stft_loop_stop)
  finally show ?thesis .
qed

lemma spectrogram_one:
  "computeSpectrogram [Num a] (Num 256) (Num 1) (Num 0)
     = Some (Inr \<lparr>magnitudes = [[NaN]], freqs = [], times = [Num 0], maxMag = NegInf, minMag = PosInf\<rparr>)"
  by (simp add: computeSpectrogram_def hann_one loop_one)

lemma twiddle_zero: "twiddle 0 2 = \<lparr>real_c = Num 1, imag_c = Num 0\<rparr>"
  by (simp add: twiddle_def)

lemma fft_pair:
  "fft [a, b] = Inr [fst (butterfly_pair (twiddle 0 2) a b), snd (butterfly_pair (twiddle 0 2) a b)]"
  by (simp add: fft.simps [of "[a, b]"] fft_single fft_combine_def half_indices_def butterfly_def
      read_elem_def upt_conv_Cons numeral_2_eq_2)


lemma magnitude_two_zero: "computeMagnitude [Num 0, Num 0] = Inr [Num 0]"
  by (simp add: computeMagnitude_def padded_length_def new_array_def fft_pair twiddle_zero
      butterfly_pair_def half_indices_def read_elem_def magnitude_def jsquare_def
      upt_conv_Cons Let_def)


lemma chunk_two_zero: "window_chunk [Num 0, Num 0] [Num 0, Num 0] (Num 0) = [Num 0, Num 0]"
  by (simp add: window_chunk_def num_at_def upt_conv_Cons)



text \<open>
  When the step leaves the window start where it is, the test of the loop holds and the
  window is transformed without a fault, the loop does not end.
\<close>

lemma stft_loop_stuck:
  assumes stay: "jadd i step = i"
    and guard: "jle i (jsub (Num (real (length signal))) ws)"
    and mags: "computeMagnitude (window_chunk signal hw i) = Inr mags"
  shows "stft_loop signal hw ws step i st = None"
proof (rule ccontr)
  assume "stft_loop signal hw ws step i st \<noteq> None"
  then obtain y where y: "stft_loop signal hw ws step i st = Some y" by blast
  define Q where "Q = (\<lambda>signal' hw' ws' step' i' (st' :: jsnum list list \<times> jsnum \<times> jsnum)
       (y' :: error + jsnum list list \<times> jsnum \<times> jsnum).
         \<not> (signal' = signal \<and> hw' = hw \<and> ws' = ws \<and> step' = step \<and> i' = i))"
  have "Q signal hw ws step i st y"
  proof (rule stft_loop.raw_induct [where P = Q, OF _ y], goal_cases)
    case (1 loop signal' hw' ws' step' i' st' y')
    show ?case
      unfolding Q_def
    proof
      assume eq: "signal' = signal \<and> hw' = hw \<and> ws' = ws \<and> step' = step \<and> i' = i"
      obtain result mx mn where st': "st' = (result, mx, mn)" by (cases st') auto
      obtain row mx' mn' where lm: "log_mags mags mx mn = (row, mx', mn')"
        by (cases "log_mags mags mx mn") auto
      from 1(2) eq guard mags st' lm stay
      have "loop signal hw ws step i (result @ [row], mx', mn') = Some y'"
        by simp
      from 1(1) [OF this] show False by (simp add: Q_def)
    qed
  qed
  then show False by (simp add: Q_def)
qed

lemma spectrogram_stuck:
  "computeSpectrogram [Num 0, Num 0] (Num 256) (Num 2) (Num 2) = None"
proof -
  have "stft_loop [Num 0, Num 0] [Num 0, Num 0] (Num 2) (Num 0) (Num 0) ([], NegInf, PosInf) = None"
    by (rule stft_loop_stuck [OF _ _ _]) (simp_all add: chunk_two_zero magnitude_two_zero)
  then show ?thesis
    by (simp add: computeSpectrogram_def hann_two)
qed

text \<open>
  A window of three samples: its Hann window is \<open>[0, 1, 0]\<close>, it is padded to four
  entries, and the transform of the padded window is that of an impulse at index 1.
\<close>

lemma pow2_of_three: "pow2_of 3 = 4"
proof -
  have l: "(\<exists>j. pow2_of 3 = 2 ^ j) \<and> 3 \<le> pow2_of 3 \<and> (\<forall>j. (3::nat) \<le> 2 ^ j \<longrightarrow> pow2_of 3 \<le> 2 ^ j)"
    by (rule pow2_of_least) simp
  then obtain j where j: "pow2_of 3 = 2 ^ j" by blast
  from l have ge: "3 \<le> pow2_of 3" by blast
  from l have "3 \<le> (2::nat) ^ 2 \<longrightarrow> pow2_of 3 \<le> 2 ^ 2" by blast
  then have le: "pow2_of 3 \<le> 4" by simp
  have "j = 2"
  proof (rule ccontr)
    assume "j \<noteq> 2"
    then consider "j = 0" | "j = 1" | "3 \<le> j" by linarith
    then show False
    proof cases
      case 1
      with j ge show False by simp
    next
      case 2
      with j ge show False by simp
    next
      case 3
      then have "(2::nat) ^ 3 \<le> 2 ^ j" by (rule power_increasing) simp
      with j le show False by simp
    qed
  qed
  with j show ?thesis by simp
qed








section \<open>The spectrogram grid\<close>

lemma row_count:
  assumes "w \<le> length signal"
  shows "(if w \<le> length signal then (length signal - w) div s + 1 else 0) = window_count (length signal) w s"
  using assms by (simp add: window_count_def)


lemma extremes_nonempty:
  assumes "seen \<noteq> []" "extremes seen mx mn"
  shows "mx \<in> set seen \<and> mn \<in> set seen
       \<and> list_all (\<lambda>x. jle x mx) seen \<and> list_all (\<lambda>x. jle mn x) seen"
  using assms by (auto simp: extremes_def list_all_iff)



lemma half_pow2_pos: "2 \<le> w \<Longrightarrow> 0 < pow2_of w div 2"
  using pow2_of_ge [of w] by simp

lemma concat_all:
  assumes "\<And>r. r < length grid \<Longrightarrow> list_all Q (grid ! r)"
  shows "list_all Q (concat grid)"
  unfolding list_all_iff
proof (intro ballI)
  fix x assume "x \<in> set (concat grid)"
  then obtain row where "row \<in> set grid" "x \<in> set row" by auto
  then obtain r where "r < length grid" "grid ! r = row" "x \<in> set row"
    by (auto simp: in_set_conv_nth)
  with assms [of r] show "Q x" by (auto simp: list_all_iff)
qed




section \<open>The all-zero signal\<close>

lemma constant_row:
  assumes "list_all (\<lambda>x. x = v) row"
  shows "row = replicate (length row) v"
  using assms by (induction row) simp_all

text \<open>
  Claim C7. For every all-zero signal of \<open>N\<close> samples, every window size \<open>w\<close> that is an
  integer with \<open>2 \<le> w \<le> N\<close> (the Hann window is defined from two samples on), and every
  integer overlap below \<open>w\<close>: \<^verbatim>\<open>computeSpectrogram\<close> returns a grid that has entries,
  every entry is \<open>20 * log10 1e-6\<close>, and the returned \<^verbatim>\<open>minMag\<close> and \<^verbatim>\<open>maxMag\<close> are both
  that value.
\<close>

theorem zero_signal_floor:
  assumes w: "2 \<le> w" and n: "w \<le> length signal" and ov: "ov < int w" and zero: "all_zero signal"
  shows "\<exists>d. computeSpectrogram signal rate (Num (real w)) (Num (of_int ov)) = Some (Inr d)
     \<and> magnitudes d = replicate (window_count (length signal) w (nat (int w - ov)))
                        (replicate (pow2_of w div 2) (jmul (Num 20) (jlog 10 (Num (1 / 10 ^ 6)))))
     \<and> 0 < window_count (length signal) w (nat (int w - ov)) \<and> 0 < pow2_of w div 2
     \<and> minMag d = jmul (Num 20) (jlog 10 (Num (1 / 10 ^ 6)))
     \<and> maxMag d = minMag d"
proof -
  let ?s = "nat (int w - ov)"
  let ?R = "window_count (length signal) w ?s"
  let ?fl = "jmul (Num 20) (jlog 10 (Num (1 / 10 ^ 6)))"
  let ?row = "replicate (pow2_of w div 2) ?fl"
  have R: "?R = (if w \<le> length signal then (length signal - w) div ?s + 1 else 0)"
    using n by (simp add: window_count_def)
  have R_pos: "0 < ?R" by (simp add: window_count_def)
  have half: "0 < pow2_of w div 2" using w by (rule half_pow2_pos)
  have chunks: "list_all (\<lambda>c. c = czero) (padded_chunk signal (hann_coefficients w) (r * ?s))" for r
    using padded_chunk_zero [OF zero hann_finite [OF w]] .
  from spectrogram_run [OF handed_on_zero w ov refl R chunks, of rate]
  obtain d where d: "computeSpectrogram signal rate (Num (real w)) (Num (of_int ov)) = Some (Inr d)"
    and len: "length (magnitudes d) = ?R"
    and rows: "\<forall>r<?R. \<exists>spectrum. fft (padded_chunk signal (hann_coefficients w) (r * ?s)) = Inr spectrum
              \<and> length spectrum = pow2_of w \<and> list_all (\<lambda>c. c = czero) spectrum
              \<and> magnitudes d ! r = spec_row_of_spectrum spectrum"
    and ext: "list_all (\<lambda>x. \<not> isNaN x) (concat (magnitudes d))
               \<longrightarrow> extremes (concat (magnitudes d)) (maxMag d) (minMag d)"
    by blast
  have row: "magnitudes d ! r = ?row" if "r < ?R" for r
  proof -
    from rows that obtain spectrum where sp: "length spectrum = pow2_of w"
      "list_all (\<lambda>c. c = czero) spectrum" "magnitudes d ! r = spec_row_of_spectrum spectrum"
      by blast
    from constant_row [OF spec_row_zero [OF sp(2)]] sp(1) sp(3) show ?thesis
      by (simp only: spec_row_length)
  qed
  have grid: "magnitudes d = replicate ?R ?row"
    using len row by (intro nth_equalityI) simp_all
  have entries: "set (concat (magnitudes d)) = {?fl}"
    unfolding grid using R_pos half by auto
  have "list_all (\<lambda>x. \<not> isNaN x) (concat (magnitudes d))"
    unfolding list_all_iff entries by (simp add: floor_value isNaN_def)
  with ext have e: "extremes (concat (magnitudes d)) (maxMag d) (minMag d)" by blast
  have ne: "concat (magnitudes d) \<noteq> []"
    using entries by (metis empty_iff empty_set singletonI)
  from extremes_nonempty [OF ne e]
  have "maxMag d \<in> set (concat (magnitudes d))" "minMag d \<in> set (concat (magnitudes d))"
    by blast+
  then have "maxMag d = ?fl" "minMag d = ?fl"
    unfolding entries by blast+
  with d grid R_pos half show ?thesis by simp
qed

theorem zero_signal_floor_witness:
  "all_zero [Num 0, Num 0, Num 0, Num 0, Num 0]
   \<and> (\<exists>d. computeSpectrogram [Num 0, Num 0, Num 0, Num 0, Num 0] (Num 256) (Num 3) (Num 1) = Some (Inr d)
          \<and> magnitudes d = [[Num (- 120), Num (- 120)], [Num (- 120), Num (- 120)]]
          \<and> minMag d = Num (- 120) \<and> maxMag d = Num (- 120))"
proof -
  let ?sig = "[Num 0, Num 0, Num 0, Num 0, Num 0]"
  let ?fl = "jmul (Num 20) (jlog 10 (Num (1 / 10 ^ 6)))"
  have h: "2 \<le> (3::nat)" "3 \<le> length ?sig" "(1::int) < int 3" by simp_all
  have z: "all_zero ?sig" by (simp add: all_zero_def)
  from zero_signal_floor [OF h z, of "Num 256"]
  obtain d where a: "computeSpectrogram ?sig (Num 256) (Num (real 3)) (Num (of_int 1)) = Some (Inr d)"
    and b: "magnitudes d = replicate (window_count (length ?sig) 3 (nat (int 3 - 1)))
                        (replicate (pow2_of 3 div 2) ?fl)"
    and c: "minMag d = ?fl" and e: "maxMag d = minMag d"
    by blast
  from a have a': "computeSpectrogram ?sig (Num 256) (Num 3) (Num 1) = Some (Inr d)" by simp
  have cnt: "window_count (length ?sig) 3 (nat (int 3 - 1)) = Suc (Suc 0)"
    by (simp add: window_count_def)
  have half: "pow2_of 3 div 2 = Suc (Suc 0)" by (simp add: pow2_of_three)
  from b have b': "magnitudes d = [[Num (- 120), Num (- 120)], [Num (- 120), Num (- 120)]]"
    unfolding cnt half floor_value by simp
  from c e have c': "minMag d = Num (- 120)" "maxMag d = Num (- 120)"
    by (simp_all only: floor_value)
  from a' b' c' z show ?thesis by blast
qed

text \<open>
  The two bounds on the window are those of the specification, and the engine needs them.
  With a window of one sample the Hann coefficient is \<^verbatim>\<open>0.5 * (1 - Math.cos(0 / 0))\<close>,
  which is \<^verbatim>\<open>NaN\<close>, and so is the one entry of the grid for the signal \<open>[0]\<close>. With an
  overlap equal to the window size the step is 0 and the loop over the windows of the
  signal \<open>[0, 0]\<close> does not end. The one caller passes 256 and 128.
\<close>

lemma calls_outside_bounds:
  "all_zero [Num 0]
   \<and> computeSpectrogram [Num 0] (Num 256) (Num 1) (Num 0)
     = Some (Inr \<lparr>magnitudes = [[NaN]], freqs = [], times = [Num 0], maxMag = NegInf, minMag = PosInf\<rparr>)
   \<and> jmul (Num 20) (jlog 10 (Num (1 / 10 ^ 6))) = Num (- 120)
   \<and> all_zero [Num 0, Num 0]
   \<and> computeSpectrogram [Num 0, Num 0] (Num 256) (Num 2) (Num 2) = None"
proof -
  have z: "all_zero [Num 0]" "all_zero [Num 0, Num 0]" by (simp_all add: all_zero_def)
  from z(1) spectrogram_one [of 0] floor_value z(2) spectrogram_stuck show ?thesis
    by (intro conjI)
qed

section \<open>The spectrogram of a short series\<close>

text \<open>The viewer shows its \<^verbatim>\<open>No Data\<close> text for an empty series only.\<close>

lemma empty_series_no_data: "spectrogram_panel has_canvas has_ctx clientWidth [] rate = Some (Inr NoData)"
  by (simp add: spectrogram_panel_def)

text \<open>
  Claim C4. For every non-empty series of fewer than 256 samples (the window size of the
  view), \<^verbatim>\<open>computeSpectrogram\<close> returns an empty grid. The view does not render a
  no-data state for it: the drawing effect reads \<^verbatim>\<open>magnitudes[0].length\<close> of the empty
  grid and raises a \<^verbatim>\<open>TypeError\<close>.
\<close>

theorem short_series_faults:
  assumes "series \<noteq> []" "length series < 256"
  shows "(\<exists>d. computeSpectrogram series rate (Num 256) (Num 128) = Some (Inr d) \<and> magnitudes d = [])
     \<and> spectrogram_panel True True clientWidth series rate = Some (Inl TypeError)"
proof -
  have w: "2 \<le> (256::nat)" and ov: "(128::int) < int 256" by simp_all
  have R: "0 = (if 256 \<le> length series then (length series - 256) div nat (int 256 - 128) + 1 else 0)"
    using assms(2) by simp
  from spectrogram_run [OF handed_on_any w ov refl R, of rate]
  obtain d where d: "computeSpectrogram series rate (Num (real 256)) (Num (of_int 128)) = Some (Inr d)"
    and len: "length (magnitudes d) = 0"
    by auto
  from d have d': "computeSpectrogram series rate (Num 256) (Num 128) = Some (Inr d)" by simp
  from len have empty: "magnitudes d = []" by simp
  have spec: "specData series rate = Some (Inr (Some d))"
    using assms(1) d' by (simp add: specData_def)
  have draw: "spectrogram_draw True True clientWidth 500 (Some d) = Inl TypeError"
    using empty by (simp add: spectrogram_draw_def read_elem_def)
  have "spectrogram_panel True True clientWidth series rate = Some (Inl TypeError)"
    using assms(1) spec draw by (simp add: spectrogram_panel_def)
  with d' empty show ?thesis by blast
qed

theorem short_series_faults_witness:
  "[Num 0] \<noteq> [] \<and> length [Num 0] < 256
   \<and> (\<exists>d. computeSpectrogram [Num 0] (Num 256) (Num 256) (Num 128) = Some (Inr d) \<and> magnitudes d = [])
   \<and> spectrogram_panel True True (Some 800) [Num 0] (Num 256) = Some (Inl TypeError)"
  using short_series_faults [of "[Num 0]" "Num 256" "Some 800"] by simp

end
